theory Spec2Isabelle
  imports Main "HOL-Library.Word" "HOL-Library.Char_ord" "HOL-Library.List_Lexorder"
begin

unbundle bit_operations_syntax

section \<open>The Value data model (json.h, json.cpp lines 22-225)\<close>

text \<open>
  The six kinds of \<^verbatim>\<open>enum class Type\<close>.
\<close>

datatype Type = Type_null | Type_boolean | Type_number | Type_string | Type_array | Type_object

text \<open>
  The exceptions the library lets escape. \<^verbatim>\<open>SyntaxError\<close> and \<^verbatim>\<open>ConversionError\<close>
  derive from \<^verbatim>\<open>ParserError\<close>; \<^verbatim>\<open>TypeError\<close> derives from \<^verbatim>\<open>std::runtime_error\<close>
  only. \<open>std_out_of_range\<close>, \<open>std_length_error\<close> and \<open>std_bad_alloc\<close> are the standard
  library's own exceptions. \<open>UndefinedBehaviour\<close> marks the places where the C++ has none
  defined (\<^verbatim>\<open>top()\<close> or \<^verbatim>\<open>pop()\<close> of an empty \<^verbatim>\<open>std::stack\<close>).
\<close>

datatype error =
    TypeError | SyntaxError | ConversionError
  | std_out_of_range | std_length_error | std_bad_alloc
  | UndefinedBehaviour

fun is_ParserError :: "error \<Rightarrow> bool" where
  "is_ParserError SyntaxError = True"
| "is_ParserError ConversionError = True"
| "is_ParserError _ = False"

text \<open>
  A \<^verbatim>\<open>Value\<close> owns a \<^verbatim>\<open>State\<close>: the type tag and a \<^verbatim>\<open>shared_ptr\<close> to the implementation
  object. The constructors are the only code that builds a \<^verbatim>\<open>State\<close>, and each sets the
  tag that belongs to the implementation object, so the model has one constructor per
  pairing. The implementation object of a scalar is never written after construction
  (the scalar accessors return copies), hence the scalar payload stands in the value
  itself. The implementation object of an array or an object holds a
  \<^verbatim>\<open>unique_ptr\<close> to the container; all copies of the value share that one pointer, so the
  model holds the address of the container in a store. The payload of a number is a
  \<^verbatim>\<open>double\<close>; the model leaves its type \<open>'n\<close> open and takes the operations on it
  (comparison, \<^verbatim>\<open>std::stod\<close>, stream insertion) as parameters.
\<close>

type_synonym addr = nat

datatype 'n Value =
    VNull
  | VBoolean bool
  | VNumber 'n
  | VString string
  | VArray addr
  | VObject addr

text \<open>
  \<^verbatim>\<open>Array = std::vector<Value>\<close> is a list; \<^verbatim>\<open>Object = std::map<std::string, Value>\<close> is
  a list of entries in ascending key order, without repeated keys. The store maps the
  address of each container to its contents; \<open>fresh\<close> is the next unused address.
  Containers are never freed in the model: a freed container has no holder left, so no
  live value can tell.
\<close>

type_synonym 'n Array = "'n Value list"
type_synonym 'n Object = "(string \<times> 'n Value) list"

record 'n heap =
  arrays :: "addr \<Rightarrow> 'n Array"
  objects :: "addr \<Rightarrow> 'n Object"
  fresh :: addr

subsection \<open>The operations of std::map and std::vector the code uses\<close>

text \<open>\<^verbatim>\<open>map::count\<close>: 1 when the key is present, 0 otherwise.\<close>

fun map_count :: "string \<Rightarrow> (string \<times> 'v) list \<Rightarrow> nat" where
  "map_count k [] = 0"
| "map_count k ((k', v') # m) = (if k = k' then 1 else map_count k m)"

text \<open>
  \<^verbatim>\<open>map::operator[]\<close>: if the key is absent, an entry with a default-constructed value
  \<open>d\<close> is inserted at its place in the key order; a present entry is left alone.
\<close>

fun map_subscript :: "string \<Rightarrow> 'v \<Rightarrow> (string \<times> 'v) list \<Rightarrow> (string \<times> 'v) list" where
  "map_subscript k d [] = [(k, d)]"
| "map_subscript k d ((k', v') # m) =
     (if k < k' then (k, d) # (k', v') # m
      else if k = k' then (k', v') # m
      else (k', v') # map_subscript k d m)"

text \<open>Assignment through the reference \<^verbatim>\<open>operator[]\<close> returned.\<close>

fun map_store :: "string \<Rightarrow> 'v \<Rightarrow> (string \<times> 'v) list \<Rightarrow> (string \<times> 'v) list" where
  "map_store k v [] = []"
| "map_store k v ((k', v') # m) = (if k = k' then (k', v) # m else (k', v') # map_store k v m)"

text \<open>
  What the standard library decides for a \<^verbatim>\<open>std::vector<Value>\<close>: \<^verbatim>\<open>max_size()\<close>, and
  whether the storage that growing the vector to \<open>n\<close> elements needs is obtained.
\<close>

record allocator =
  max_size :: nat
  allocates :: "nat \<Rightarrow> bool"

text \<open>
  \<^verbatim>\<open>vector::resize(n)\<close>: cut to \<open>n\<close> elements, or pad with default-constructed values
  \<open>d\<close>. Growing beyond \<^verbatim>\<open>max_size()\<close> throws \<^verbatim>\<open>std::length_error\<close>; growing without
  obtaining the storage throws \<^verbatim>\<open>std::bad_alloc\<close>. Either way the vector is left as
  it was.
\<close>

definition vector_resize :: "allocator \<Rightarrow> 'v \<Rightarrow> 'v list \<Rightarrow> nat \<Rightarrow> error + 'v list" where
  "vector_resize al d xs n =
     (if n \<le> length xs then Inr (take n xs)
      else if max_size al < n then Inl std_length_error
      else if \<not> allocates al n then Inl std_bad_alloc
      else Inr (xs @ replicate (n - length xs) d))"

subsection \<open>Construction, copy, queries\<close>

text \<open>
  \<^verbatim>\<open>Value(Array)\<close> and \<^verbatim>\<open>Value(Object)\<close> move the argument into a newly allocated
  container (\<^verbatim>\<open>std::make_unique\<close>).
\<close>

definition Value_Array :: "'n heap \<Rightarrow> 'n Array \<Rightarrow> 'n Value \<times> 'n heap" where
  "Value_Array h a = (VArray (fresh h), h\<lparr>arrays := (arrays h)(fresh h := a), fresh := Suc (fresh h)\<rparr>)"

definition Value_Object :: "'n heap \<Rightarrow> 'n Object \<Rightarrow> 'n Value \<times> 'n heap" where
  "Value_Object h ob = (VObject (fresh h), h\<lparr>objects := (objects h)(fresh h := ob), fresh := Suc (fresh h)\<rparr>)"

text \<open>
  \<^verbatim>\<open>Value(const Value& that)\<close> copies \<^verbatim>\<open>*that.state\<close>: the tag and the shared pointer.
  No container is allocated.
\<close>

definition Value_copy :: "'n Value \<Rightarrow> 'n Value" where
  "Value_copy that = that"

fun Value_type :: "'n Value \<Rightarrow> Type" where
  "Value_type VNull = Type_null"
| "Value_type (VBoolean _) = Type_boolean"
| "Value_type (VNumber _) = Type_number"
| "Value_type (VString _) = Type_string"
| "Value_type (VArray _) = Type_array"
| "Value_type (VObject _) = Type_object"

definition Value_isValid :: "'n Value \<Rightarrow> bool" where
  "Value_isValid v = (Value_type v \<noteq> Type_null)"

definition Value_isReference :: "'n Value \<Rightarrow> bool" where
  "Value_isReference v = (Value_type v = Type_array \<or> Value_type v = Type_object)"

text \<open>
  \<^verbatim>\<open>ValueImpl<T>::equals\<close>: the dynamic cast succeeds when both implementation objects
  hold the same \<^verbatim>\<open>T\<close>, and then the payloads are compared with \<^verbatim>\<open>==\<close>. For
  \<^verbatim>\<open>T = std::unique_ptr<Array>\<close> (and \<^verbatim>\<open>Object\<close>) that is the comparison of the two
  pointers. \<^verbatim>\<open>ValueImplBase::equals\<close>, which a null value has, returns false. \<open>deq\<close> is
  \<^verbatim>\<open>==\<close> on \<^verbatim>\<open>double\<close>.
\<close>

fun ValueImpl_equals :: "('n \<Rightarrow> 'n \<Rightarrow> bool) \<Rightarrow> 'n Value \<Rightarrow> 'n Value \<Rightarrow> bool" where
  "ValueImpl_equals deq (VBoolean x) (VBoolean y) = (x = y)"
| "ValueImpl_equals deq (VNumber x) (VNumber y) = deq x y"
| "ValueImpl_equals deq (VString x) (VString y) = (x = y)"
| "ValueImpl_equals deq (VArray p) (VArray q) = (p = q)"
| "ValueImpl_equals deq (VObject p) (VObject q) = (p = q)"
| "ValueImpl_equals deq _ _ = False"

definition Value_equals :: "('n \<Rightarrow> 'n \<Rightarrow> bool) \<Rightarrow> 'n Value \<Rightarrow> 'n Value \<Rightarrow> bool" where
  "Value_equals deq this that =
     ((Value_type this = Type_null \<and> Value_type that = Type_null)
      \<or> (Value_type this = Value_type that \<and> ValueImpl_equals deq this that))"

text \<open>
  \<^verbatim>\<open>operator==\<close> of \<^verbatim>\<open>std::vector<Value>\<close> and of \<^verbatim>\<open>std::map<std::string, Value>\<close>:
  equal sizes and pairwise equal elements (entries), the elements compared with
  \<^verbatim>\<open>operator==(const Value&, const Value&)\<close>, which is \<^verbatim>\<open>equals\<close>.
\<close>

definition Array_equal :: "('n \<Rightarrow> 'n \<Rightarrow> bool) \<Rightarrow> 'n Array \<Rightarrow> 'n Array \<Rightarrow> bool" where
  "Array_equal deq a b = list_all2 (Value_equals deq) a b"

definition Object_equal :: "('n \<Rightarrow> 'n \<Rightarrow> bool) \<Rightarrow> 'n Object \<Rightarrow> 'n Object \<Rightarrow> bool" where
  "Object_equal deq a b = list_all2 (\<lambda>x y. fst x = fst y \<and> Value_equals deq (snd x) (snd y)) a b"

subsection \<open>Accessors\<close>

text \<open>\<^verbatim>\<open>implValueAs<T>\<close> throws \<^verbatim>\<open>TypeError\<close> when the dynamic cast fails.\<close>

fun Value_asBoolean :: "'n Value \<Rightarrow> error + bool" where
  "Value_asBoolean (VBoolean b) = Inr b"
| "Value_asBoolean _ = Inl TypeError"

fun Value_asNumber :: "'n Value \<Rightarrow> error + 'n" where
  "Value_asNumber (VNumber x) = Inr x"
| "Value_asNumber _ = Inl TypeError"

fun Value_asString :: "'n Value \<Rightarrow> error + string" where
  "Value_asString (VString s) = Inr s"
| "Value_asString _ = Inl TypeError"

text \<open>
  \<^verbatim>\<open>asArray\<close> and \<^verbatim>\<open>asObject\<close> return a reference to the shared container: its address.
\<close>

fun Value_asArray :: "'n Value \<Rightarrow> error + addr" where
  "Value_asArray (VArray a) = Inr a"
| "Value_asArray _ = Inl TypeError"

fun Value_asObject :: "'n Value \<Rightarrow> error + addr" where
  "Value_asObject (VObject a) = Inr a"
| "Value_asObject _ = Inl TypeError"

text \<open>
  The methods below are all declared \<^verbatim>\<open>const\<close>, and two of them write to the shared
  container all the same. Each therefore returns the store next to its result.
  \<^verbatim>\<open>arrayLength\<close> and \<^verbatim>\<open>hasProperty\<close> are \<^verbatim>\<open>noexcept\<close>; an \<open>Inl\<close> would be an
  exception thrown inside them.
\<close>

definition Value_arrayLength :: "'n heap \<Rightarrow> 'n Value \<Rightarrow> error + (nat \<times> 'n heap)" where
  "Value_arrayLength h v =
     (if Value_type v = Type_array
      then (case Value_asArray v of Inl e \<Rightarrow> Inl e | Inr a \<Rightarrow> Inr (length (arrays h a), h))
      else Inr (0, h))"

definition SIZE_MAX :: "64 word" where
  "SIZE_MAX = 0xFFFFFFFFFFFFFFFF"

text \<open>
  \<^verbatim>\<open>element\<close> returns a reference to a slot of the array: the address of the array and
  the index. An exception of \<^verbatim>\<open>resize\<close> leaves \<^verbatim>\<open>element\<close>.
\<close>

definition Value_element ::
  "allocator \<Rightarrow> 'n heap \<Rightarrow> 'n Value \<Rightarrow> 64 word \<Rightarrow> error + ((addr \<times> nat) \<times> 'n heap)" where
  "Value_element al h v index =
     (if index \<ge> SIZE_MAX then Inl std_out_of_range
      else (case Value_asArray v of
              Inl e \<Rightarrow> Inl e
            | Inr a \<Rightarrow>
                (if unat index \<ge> length (arrays h a)
                 then (case vector_resize al VNull (arrays h a) (unat (index + 1)) of
                         Inl e \<Rightarrow> Inl e
                       | Inr xs \<Rightarrow> Inr ((a, unat index), h\<lparr>arrays := (arrays h)(a := xs)\<rparr>))
                 else Inr ((a, unat index), h))))"

definition Value_hasProperty :: "'n heap \<Rightarrow> 'n Value \<Rightarrow> string \<Rightarrow> error + (bool \<times> 'n heap)" where
  "Value_hasProperty h v name =
     (if Value_type v = Type_object
      then (case Value_asObject v of Inl e \<Rightarrow> Inl e | Inr a \<Rightarrow> Inr (map_count name (objects h a) \<noteq> 0, h))
      else Inr (False, h))"

text \<open>
  \<^verbatim>\<open>property\<close> returns a reference to the mapped value: the address of the object and
  the key.
\<close>

definition Value_property :: "'n heap \<Rightarrow> 'n Value \<Rightarrow> string \<Rightarrow> error + ((addr \<times> string) \<times> 'n heap)" where
  "Value_property h v name =
     (case Value_asObject v of
        Inl e \<Rightarrow> Inl e
      | Inr a \<Rightarrow> Inr ((a, name), h\<lparr>objects := (objects h)(a := map_subscript name VNull (objects h a))\<rparr>))"


section \<open>Input streams\<close>

text \<open>
  A \<^verbatim>\<open>std::istream\<close> over a fixed text (the tests read from a \<^verbatim>\<open>std::stringstream\<close>):
  the unread characters and the two state bits the code can observe. \<^verbatim>\<open>peek\<close> and
  \<^verbatim>\<open>get\<close> construct a sentry first, which sets \<^verbatim>\<open>failbit\<close> when the stream is not
  good; reaching the end sets \<^verbatim>\<open>eofbit\<close> (and \<^verbatim>\<open>get\<close> then sets \<^verbatim>\<open>failbit\<close> as well).
  Both return \<^verbatim>\<open>traits::eof()\<close>, which is \<open>- 1\<close>, when no character is there.
\<close>

record istream =
  chars :: string
  eofbit :: bool
  failbit :: bool

definition istream_of :: "string \<Rightarrow> istream" where
  "istream_of s = \<lparr>chars = s, eofbit = False, failbit = False\<rparr>"

definition istream_good :: "istream \<Rightarrow> bool" where
  "istream_good s = (\<not> eofbit s \<and> \<not> failbit s)"

text \<open>The conversion of a stream to \<^verbatim>\<open>bool\<close>: \<^verbatim>\<open>!fail()\<close>.\<close>

definition istream_bool :: "istream \<Rightarrow> bool" where
  "istream_bool s = (\<not> failbit s)"

definition ord :: "char \<Rightarrow> int" where
  "ord c = int (of_char c)"

definition istream_peek :: "istream \<Rightarrow> int \<times> istream" where
  "istream_peek s =
     (if \<not> istream_good s then (- 1, s\<lparr>failbit := True\<rparr>)
      else (case chars s of
              [] \<Rightarrow> (- 1, s\<lparr>eofbit := True\<rparr>)
            | c # cs \<Rightarrow> (ord c, s)))"

definition istream_get :: "istream \<Rightarrow> int \<times> istream" where
  "istream_get s =
     (if \<not> istream_good s then (- 1, s\<lparr>failbit := True\<rparr>)
      else (case chars s of
              [] \<Rightarrow> (- 1, s\<lparr>eofbit := True, failbit := True\<rparr>)
            | c # cs \<Rightarrow> (ord c, s\<lparr>chars := cs\<rparr>)))"

section \<open>The grammar engine (json.cpp lines 309-427)\<close>

text \<open>
  The character classes handed to \<^verbatim>\<open>terminal(CharClass)\<close> and the member functions
  handed to \<^verbatim>\<open>std::mem_fn\<close>, by name.
\<close>

datatype CharClass = letter | digit | n0digit | xdigit | space | strchar

datatype MemFn =
    beginToken | pushObject | pushArray | finishCompound | compileName | compileProperty
  | compileArrayElement | compileCompound | compileString | compileNumber | compileSymbol

text \<open>
  A \<^verbatim>\<open>Rule\<close> is a \<^verbatim>\<open>std::function<bool(Parser&, std::istream&)>\<close>. The generators of
  \<^verbatim>\<open>bnf_generators\<close> build closures; the model keeps the closure as the term that built
  it and gives its body in \<open>run\<close> below. Every rule of the table is non-empty, so the
  generators' tests for an empty \<^verbatim>\<open>std::function\<close> never take the other branch.
\<close>

datatype Rule =
    Terminal char
  | Terminal_class CharClass
  | Nonterminal string
  | Require Rule
  | Optional Rule
  | Multiple Rule
  | Both Rule Rule
  | Either Rule Rule
  | Mem_fn MemFn

text \<open>
  The operators of \<^verbatim>\<open>namespace bnf_symbols\<close>: \<^verbatim>\<open>a + b\<close>, \<^verbatim>\<open>a & b\<close>, \<^verbatim>\<open>a | b\<close>,
  \<^verbatim>\<open>~a\<close> and \<^verbatim>\<open>*a\<close>. In C++ \<^verbatim>\<open>+\<close> binds tighter than \<^verbatim>\<open>&\<close>, which binds tighter
  than \<^verbatim>\<open>|\<close>, and all three associate to the left.
\<close>

definition op_plus :: "Rule \<Rightarrow> Rule \<Rightarrow> Rule" where
  "op_plus first second = Both first second"

definition op_amp :: "Rule \<Rightarrow> Rule \<Rightarrow> Rule" where
  "op_amp first second = Both first (Require second)"

definition op_bar :: "Rule \<Rightarrow> Rule \<Rightarrow> Rule" where
  "op_bar first second = Either first second"

definition op_tilde :: "Rule \<Rightarrow> Rule" where
  "op_tilde r = Optional r"

definition op_star :: "Rule \<Rightarrow> Rule" where
  "op_star r = Multiple r"

text \<open>Left-nested chains of one operator, as C++ parses \<^verbatim>\<open>a & b & c\<close>.\<close>

definition amp_chain :: "Rule \<Rightarrow> Rule list \<Rightarrow> Rule" where
  "amp_chain r rs = foldl op_amp r rs"

definition plus_chain :: "Rule \<Rightarrow> Rule list \<Rightarrow> Rule" where
  "plus_chain r rs = foldl op_plus r rs"

definition bar_chain :: "Rule \<Rightarrow> Rule list \<Rightarrow> Rule" where
  "bar_chain r rs = foldl op_bar r rs"

section \<open>The parser (json.cpp lines 445-788)\<close>

text \<open>
  \<^verbatim>\<open>Parser::State\<close> without the rule table (it is set once by the constructor and never
  changed) and without the logging flag (the trace goes to \<^verbatim>\<open>std::clog\<close> and changes
  nothing else). The stacks have their top at the head. The rules receive the parser
  and the stream together and work on the containers in memory, so the state a rule
  transforms holds all three.
\<close>

record 'n Parser_State =
  buffer :: string
  lines :: "64 word"
  result :: "'n Value"
  nameStack :: "string list"
  valueStack :: "'n Value list"
  inp :: istream
  mem :: "'n heap"

text \<open>
  What a rule does: it returns a \<^verbatim>\<open>bool\<close> or throws, and leaves a state Either way.
\<close>

type_synonym 'n outcome = "(error + bool) \<times> 'n Parser_State"

definition Parser_initialRules :: "(string \<times> Rule) list" where
  "Parser_initialRules = [
    (''object'',
      amp_chain (Terminal CHR ''{'') [op_bar (Nonterminal ''property_list'') (Nonterminal ''whitespace''), Terminal CHR ''}'']),
    (''property_list'',
      plus_chain (Mem_fn pushObject)
        [op_amp (Nonterminal ''property'') (op_star (op_amp (Terminal CHR '','') (Nonterminal ''property''))),
         Mem_fn compileCompound,
         Mem_fn finishCompound]),
    (''property'',
      op_plus (amp_chain (Nonterminal ''name'') [Terminal CHR '':'', Nonterminal ''value''])
        (Mem_fn compileProperty)),
    (''name'',
      op_plus (plus_chain (Nonterminal ''whitespace'') [Nonterminal ''string'', Nonterminal ''whitespace''])
        (Mem_fn compileName)),
    (''array'',
      amp_chain (Terminal CHR ''['') [op_bar (Nonterminal ''array_element_list'') (Nonterminal ''whitespace''), Terminal CHR '']'']),
    (''array_element_list'',
      plus_chain (Mem_fn pushArray)
        [op_amp (Nonterminal ''array_element'') (op_star (op_amp (Terminal CHR '','') (Nonterminal ''array_element''))),
         Mem_fn compileCompound,
         Mem_fn finishCompound]),
    (''array_element'',
      op_plus (Nonterminal ''value'') (Mem_fn compileArrayElement)),
    (''value'',
      plus_chain (Nonterminal ''whitespace'')
        [bar_chain (Nonterminal ''object'')
           [Nonterminal ''array'', Nonterminal ''string'', Nonterminal ''number'', Nonterminal ''symbol''],
         Nonterminal ''whitespace'']),
    (''symbol'',
      plus_chain (Mem_fn beginToken)
        [op_amp (Nonterminal ''symbol_char'') (op_star (Nonterminal ''symbol_char'')),
         Mem_fn compileSymbol]),
    (''string'',
      plus_chain (Mem_fn beginToken)
        [amp_chain (Terminal CHR 0x22) [op_star (Nonterminal ''string_content''), Terminal CHR 0x22],
         Mem_fn compileString]),
    (''string_content'',
      op_bar (Nonterminal ''escape'') (Nonterminal ''string_char'')),
    (''escape'',
      op_amp (Terminal CHR 0x5C) (Nonterminal ''escape_sequence'')),
    (''escape_sequence'',
      bar_chain (Terminal CHR 0x22)
        [Terminal CHR 0x5C, Terminal CHR ''/'', Terminal CHR ''b'', Terminal CHR ''f'', Terminal CHR ''n'',
         Terminal CHR ''r'', Terminal CHR ''t'',
         amp_chain (Terminal CHR ''u'')
           [Nonterminal ''xdigit'', Nonterminal ''xdigit'', Nonterminal ''xdigit'', Nonterminal ''xdigit'']]),
    (''number'',
      plus_chain (Mem_fn beginToken)
        [amp_chain (op_bar (op_amp (Terminal CHR ''-'') (Nonterminal ''digit_sequence'')) (Nonterminal ''digit_sequence''))
           [op_tilde (Nonterminal ''fraction''), op_tilde (Nonterminal ''exponent'')],
         Mem_fn compileNumber]),
    (''digit_sequence'',
      op_bar (Terminal CHR ''0'') (Nonterminal ''nonzero_sequence'')),
    (''nonzero_sequence'',
      op_amp (Nonterminal ''nonzero_digit'') (op_star (Nonterminal ''digit''))),
    (''fraction'',
      amp_chain (Terminal CHR ''.'') [Nonterminal ''digit'', op_star (Nonterminal ''digit'')]),
    (''exponent'',
      amp_chain (op_bar (Terminal CHR ''E'') (Terminal CHR ''e''))
        [op_tilde (op_bar (Terminal CHR ''+'') (Terminal CHR ''-'')), Nonterminal ''digit'', op_star (Nonterminal ''digit'')]),
    (''whitespace'',
      op_star (Nonterminal ''whitespace_char'')),
    (''symbol_char'', Terminal_class letter),
    (''digit'', Terminal_class digit),
    (''nonzero_digit'', Terminal_class n0digit),
    (''xdigit'', Terminal_class xdigit),
    (''whitespace_char'', Terminal_class space),
    (''string_char'', Terminal_class strchar)
  ]"

text \<open>\<^verbatim>\<open>Parser::rule\<close>: \<^verbatim>\<open>state->rules.at(id)\<close>, which throws when the name is unknown.\<close>

definition Parser_rule :: "string \<Rightarrow> error + Rule" where
  "Parser_rule id' = (case map_of Parser_initialRules id' of None \<Rightarrow> Inl std_out_of_range | Some r \<Rightarrow> Inr r)"

subsection \<open>Character classes\<close>

definition Parser_letter :: "int \<Rightarrow> bool" where
  "Parser_letter c = ((c \<ge> ord CHR ''A'' \<and> c \<le> ord CHR ''Z'') \<or> (c \<ge> ord CHR ''a'' \<and> c \<le> ord CHR ''z''))"

definition Parser_digit :: "int \<Rightarrow> bool" where
  "Parser_digit c = (c \<ge> ord CHR ''0'' \<and> c \<le> ord CHR ''9'')"

definition Parser_n0digit :: "int \<Rightarrow> bool" where
  "Parser_n0digit c = (c \<ge> ord CHR ''1'' \<and> c \<le> ord CHR ''9'')"

definition Parser_xdigit :: "int \<Rightarrow> bool" where
  "Parser_xdigit c =
     ((c \<ge> ord CHR ''0'' \<and> c \<le> ord CHR ''9'') \<or> (c \<ge> ord CHR ''A'' \<and> c \<le> ord CHR ''F'')
      \<or> (c \<ge> ord CHR ''a'' \<and> c \<le> ord CHR ''f''))"

definition Parser_space :: "int \<Rightarrow> bool" where
  "Parser_space c = (c = ord CHR '' '' \<or> c = ord CHR 0x0A \<or> c = ord CHR 0x0D \<or> c = ord CHR 0x09)"

definition Parser_strchar :: "int \<Rightarrow> bool" where
  "Parser_strchar c = (c \<ge> 0x20 \<and> c < 0x7f \<and> c \<noteq> ord CHR 0x22 \<and> c \<noteq> ord CHR 0x5C)"

fun CharClass_apply :: "CharClass \<Rightarrow> int \<Rightarrow> bool" where
  "CharClass_apply letter c = Parser_letter c"
| "CharClass_apply digit c = Parser_digit c"
| "CharClass_apply n0digit c = Parser_n0digit c"
| "CharClass_apply xdigit c = Parser_xdigit c"
| "CharClass_apply space c = Parser_space c"
| "CharClass_apply strchar c = Parser_strchar c"

subsection \<open>Reading characters\<close>

definition Parser_getc :: "'n Parser_State \<Rightarrow> 'n Parser_State" where
  "Parser_getc p =
     (let (c, in') = istream_get (inp p) in
      if c < 0 then p\<lparr>inp := in'\<rparr>
      else p\<lparr>buffer := buffer p @ [char_of c],
             lines := (if c = ord CHR 0x0A \<or> c = ord CHR 0x0D then lines p + 1 else lines p),
             inp := in'\<rparr>)"

definition Parser_read :: "int \<Rightarrow> 'n Parser_State \<Rightarrow> bool \<times> 'n Parser_State" where
  "Parser_read what p =
     (let (c, in') = istream_peek (inp p); p' = p\<lparr>inp := in'\<rparr> in
      if c = what then (True, Parser_getc p') else (False, p'))"

definition Parser_read_class :: "CharClass \<Rightarrow> 'n Parser_State \<Rightarrow> bool \<times> 'n Parser_State" where
  "Parser_read_class filter' p =
     (let (c, in') = istream_peek (inp p); p' = p\<lparr>inp := in'\<rparr> in
      if CharClass_apply filter' c then (True, Parser_getc p') else (False, p'))"


subsection \<open>Stacks\<close>

text \<open>
  \<^verbatim>\<open>std::stack::top\<close> and \<^verbatim>\<open>pop\<close> on an empty stack have no defined behaviour.
\<close>

definition Parser_value :: "'n Parser_State \<Rightarrow> error + 'n Value" where
  "Parser_value p = (case valueStack p of [] \<Rightarrow> Inl UndefinedBehaviour | v # vs \<Rightarrow> Inr v)"

definition Parser_pushValue :: "'n Value \<Rightarrow> 'n Parser_State \<Rightarrow> 'n Parser_State" where
  "Parser_pushValue v p = p\<lparr>valueStack := v # valueStack p\<rparr>"

definition Parser_popValue :: "'n Parser_State \<Rightarrow> error + 'n Parser_State" where
  "Parser_popValue p = (case valueStack p of [] \<Rightarrow> Inl UndefinedBehaviour | v # vs \<Rightarrow> Inr (p\<lparr>valueStack := vs\<rparr>))"

definition Parser_pushName :: "string \<Rightarrow> 'n Parser_State \<Rightarrow> 'n Parser_State" where
  "Parser_pushName s p = p\<lparr>nameStack := s # nameStack p\<rparr>"

definition Parser_popName :: "'n Parser_State \<Rightarrow> error + (string \<times> 'n Parser_State)" where
  "Parser_popName p = (case nameStack p of [] \<Rightarrow> Inl UndefinedBehaviour | s # ss \<Rightarrow> Inr (s, p\<lparr>nameStack := ss\<rparr>))"

subsection \<open>Semantic actions\<close>

definition Parser_beginToken :: "'n Parser_State \<Rightarrow> 'n outcome" where
  "Parser_beginToken p = (Inr True, p\<lparr>buffer := []\<rparr>)"

definition Parser_pushObject :: "'n Parser_State \<Rightarrow> 'n outcome" where
  "Parser_pushObject p = (let (v, h) = Value_Object (mem p) [] in (Inr True, Parser_pushValue v (p\<lparr>mem := h\<rparr>)))"

definition Parser_pushArray :: "'n Parser_State \<Rightarrow> 'n outcome" where
  "Parser_pushArray p = (let (v, h) = Value_Array (mem p) [] in (Inr True, Parser_pushValue v (p\<lparr>mem := h\<rparr>)))"

definition Parser_finishCompound :: "'n Parser_State \<Rightarrow> 'n outcome" where
  "Parser_finishCompound p = (case Parser_popValue p of Inl e \<Rightarrow> (Inl e, p) | Inr p' \<Rightarrow> (Inr True, p'))"

definition Parser_compileName :: "'n Parser_State \<Rightarrow> 'n outcome" where
  "Parser_compileName p =
     (case Value_asString (result p) of
        Inl e \<Rightarrow> (Inl e, p)
      | Inr s \<Rightarrow> (Inr True, Parser_pushName s p))"

text \<open>
  \<^verbatim>\<open>value().asObject()[popName()] = result();\<close> The entry is created by
  \<^verbatim>\<open>operator[]\<close> when the name is new and then assigned a copy of the result.
\<close>

definition Parser_compileProperty :: "'n Parser_State \<Rightarrow> 'n outcome" where
  "Parser_compileProperty p =
     (case Parser_value p of
        Inl e \<Rightarrow> (Inl e, p)
      | Inr v \<Rightarrow>
          (case Value_asObject v of
             Inl e \<Rightarrow> (Inl e, p)
           | Inr a \<Rightarrow>
               (case Parser_popName p of
                  Inl e \<Rightarrow> (Inl e, p)
                | Inr (k, p') \<Rightarrow>
                    (Inr True,
                     p'\<lparr>mem := (mem p')\<lparr>objects := (objects (mem p'))
                        (a := map_store k (Value_copy (result p')) (map_subscript k VNull (objects (mem p') a)))\<rparr>\<rparr>))))"

definition Parser_compileArrayElement :: "'n Parser_State \<Rightarrow> 'n outcome" where
  "Parser_compileArrayElement p =
     (case Parser_value p of
        Inl e \<Rightarrow> (Inl e, p)
      | Inr v \<Rightarrow>
          (case Value_asArray v of
             Inl e \<Rightarrow> (Inl e, p)
           | Inr a \<Rightarrow>
               (Inr True,
                p\<lparr>mem := (mem p)\<lparr>arrays := (arrays (mem p))(a := arrays (mem p) a @ [Value_copy (result p)])\<rparr>\<rparr>)))"

definition Parser_compileCompound :: "'n Parser_State \<Rightarrow> 'n outcome" where
  "Parser_compileCompound p =
     (case Parser_value p of
        Inl e \<Rightarrow> (Inl e, p)
      | Inr v \<Rightarrow> (Inr True, p\<lparr>result := Value_copy v\<rparr>))"

text \<open>
  The loop of \<^verbatim>\<open>compileString\<close> over the text between the quotes. \<open>unescape (c # cs)\<close>
  is the iteration at \<^verbatim>\<open>source[i] = c\<close> with \<open>cs\<close> the characters after it. After a
  backslash the switch reads \<^verbatim>\<open>source[i + 1]\<close>; one past the end that is the
  terminating \<^verbatim>\<open>'\0'\<close>, which takes the default case. The cases that end in \<^verbatim>\<open>++i\<close>
  continue behind the escaped character; \<^verbatim>\<open>case 'u': break;\<close> changes neither
  \<^verbatim>\<open>c\<close> nor \<^verbatim>\<open>i\<close>, so the backslash itself is appended and the loop goes on at the
  \<^verbatim>\<open>u\<close>.
\<close>

definition push_back_to :: "char \<Rightarrow> error + string \<Rightarrow> error + string" where
  "push_back_to c r = (case r of Inl e \<Rightarrow> Inl e | Inr s \<Rightarrow> Inr (c # s))"

fun unescape :: "string \<Rightarrow> error + string" where
  "unescape [] = Inr []"
| "unescape (c # cs) =
     (if c = CHR 0x5C then
        (case cs of
           [] \<Rightarrow> Inl ConversionError
         | d # ds \<Rightarrow>
             if d = CHR 0x22 \<or> d = CHR 0x5C \<or> d = CHR ''/'' then push_back_to d (unescape ds)
             else if d = CHR ''b'' then push_back_to (CHR 0x08) (unescape ds)
             else if d = CHR ''f'' then push_back_to (CHR 0x0C) (unescape ds)
             else if d = CHR ''n'' then push_back_to (CHR 0x0A) (unescape ds)
             else if d = CHR ''r'' then push_back_to (CHR 0x0D) (unescape ds)
             else if d = CHR ''t'' then push_back_to (CHR 0x09) (unescape ds)
             else if d = CHR ''u'' then push_back_to c (unescape cs)
             else Inl ConversionError)
      else push_back_to c (unescape cs))"

definition Parser_compileString :: "'n Parser_State \<Rightarrow> 'n outcome" where
  "Parser_compileString p =
     (let source = buffer p; length' = length source in
      if \<not> (length' \<ge> 2 \<and> source ! 0 = CHR 0x22 \<and> source ! (length' - 1) = CHR 0x22)
      then (Inl ConversionError, p)
      else (case unescape (take (length' - 2) (drop 1 source)) of
              Inl e \<Rightarrow> (Inl e, p)
            | Inr s \<Rightarrow> (Inr True, p\<lparr>result := VString s\<rparr>)))"

text \<open>
  \<^verbatim>\<open>std::stod\<close> returns the converted number, or throws \<^verbatim>\<open>std::invalid_argument\<close> or
  \<^verbatim>\<open>std::out_of_range\<close>. \<^verbatim>\<open>compileNumber\<close> catches the first only.
\<close>

datatype 'n stod_result = stod_returns 'n | stod_invalid_argument | stod_out_of_range

definition Parser_compileNumber :: "(string \<Rightarrow> 'n stod_result) \<Rightarrow> 'n Parser_State \<Rightarrow> 'n outcome" where
  "Parser_compileNumber stod p =
     (case stod (buffer p) of
        stod_returns x \<Rightarrow> (Inr True, p\<lparr>result := VNumber x\<rparr>)
      | stod_invalid_argument \<Rightarrow> (Inl ConversionError, p)
      | stod_out_of_range \<Rightarrow> (Inl std_out_of_range, p))"

definition Parser_compileSymbol :: "'n Parser_State \<Rightarrow> 'n outcome" where
  "Parser_compileSymbol p =
     (let symbol = buffer p in
      if symbol = ''true'' then (Inr True, p\<lparr>result := VBoolean True\<rparr>)
      else if symbol = ''false'' then (Inr True, p\<lparr>result := VBoolean False\<rparr>)
      else if symbol = ''null'' then (Inr True, p\<lparr>result := VNull\<rparr>)
      else (Inl SyntaxError, p))"

fun MemFn_apply :: "(string \<Rightarrow> 'n stod_result) \<Rightarrow> MemFn \<Rightarrow> 'n Parser_State \<Rightarrow> 'n outcome" where
  "MemFn_apply stod beginToken p = Parser_beginToken p"
| "MemFn_apply stod pushObject p = Parser_pushObject p"
| "MemFn_apply stod pushArray p = Parser_pushArray p"
| "MemFn_apply stod finishCompound p = Parser_finishCompound p"
| "MemFn_apply stod compileName p = Parser_compileName p"
| "MemFn_apply stod compileProperty p = Parser_compileProperty p"
| "MemFn_apply stod compileArrayElement p = Parser_compileArrayElement p"
| "MemFn_apply stod compileCompound p = Parser_compileCompound p"
| "MemFn_apply stod compileString p = Parser_compileString p"
| "MemFn_apply stod compileNumber p = Parser_compileNumber stod p"
| "MemFn_apply stod compileSymbol p = Parser_compileSymbol p"

subsection \<open>Running a rule\<close>

text \<open>
  The bodies of the closures of \<^verbatim>\<open>bnf_generators\<close>, and \<^verbatim>\<open>Parser::parse\<close> for a
  nonterminal. The grammar is recursive and \<^verbatim>\<open>multiple\<close> loops for as long as its rule
  matches, so a run is bounded by a number of nested calls; \<open>None\<close> says that the bound
  was reached before the rule returned.
\<close>

fun run :: "(string \<Rightarrow> 'n stod_result) \<Rightarrow> nat \<Rightarrow> Rule \<Rightarrow> 'n Parser_State \<Rightarrow> 'n outcome option" where
  "run stod 0 r p = None"
| "run stod (Suc n) (Terminal what) p =
     (let (b, p') = Parser_read (ord what) p in Some (Inr b, p'))"
| "run stod (Suc n) (Terminal_class filter') p =
     (let (b, p') = Parser_read_class filter' p in Some (Inr b, p'))"
| "run stod (Suc n) (Nonterminal id') p =
     (case Parser_rule id' of
        Inl e \<Rightarrow> Some (Inl e, p)
      | Inr r \<Rightarrow> run stod n r p)"
| "run stod (Suc n) (Require r) p =
     (case run stod n r p of
        None \<Rightarrow> None
      | Some (Inl e, p') \<Rightarrow> Some (Inl e, p')
      | Some (Inr b, p') \<Rightarrow> if b then Some (Inr True, p') else Some (Inl SyntaxError, p'))"
| "run stod (Suc n) (Optional r) p =
     (case run stod n r p of
        None \<Rightarrow> None
      | Some (Inl e, p') \<Rightarrow> Some (Inl e, p')
      | Some (Inr b, p') \<Rightarrow> Some (Inr (b \<or> True), p'))"
| "run stod (Suc n) (Multiple r) p =
     (if \<not> istream_bool (inp p) then Some (Inr True, p)
      else (case run stod n r p of
              None \<Rightarrow> None
            | Some (Inl e, p') \<Rightarrow> Some (Inl e, p')
            | Some (Inr b, p') \<Rightarrow> if b then run stod n (Multiple r) p' else Some (Inr True, p')))"
| "run stod (Suc n) (Both first second) p =
     (case run stod n first p of
        None \<Rightarrow> None
      | Some (Inl e, p') \<Rightarrow> Some (Inl e, p')
      | Some (Inr b, p') \<Rightarrow> if b then run stod n second p' else Some (Inr False, p'))"
| "run stod (Suc n) (Either first second) p =
     (case run stod n first p of
        None \<Rightarrow> None
      | Some (Inl e, p') \<Rightarrow> Some (Inl e, p')
      | Some (Inr b, p') \<Rightarrow> if b then Some (Inr True, p') else run stod n second p')"
| "run stod (Suc n) (Mem_fn f) p = Some (MemFn_apply stod f p)"

text \<open>
  \<^verbatim>\<open>Parser()\<close> starts with empty buffers and stacks and a null result.
  \<^verbatim>\<open>parseObject\<close> resets the result, runs \<^verbatim>\<open>require(nonterminal("object"))\<close> and
  returns the result.
\<close>

definition Parser_new :: "istream \<Rightarrow> 'n heap \<Rightarrow> 'n Parser_State" where
  "Parser_new in' h =
     \<lparr>buffer = [], lines = 0, result = VNull, nameStack = [], valueStack = [], inp = in', mem = h\<rparr>"

definition Parser_parseObject ::
  "(string \<Rightarrow> 'n stod_result) \<Rightarrow> nat \<Rightarrow> 'n Parser_State \<Rightarrow> ((error + 'n Value) \<times> 'n Parser_State) option" where
  "Parser_parseObject stod n p =
     (case run stod n (Require (Nonterminal ''object'')) (p\<lparr>result := VNull\<rparr>) of
        None \<Rightarrow> None
      | Some (Inl e, p') \<Rightarrow> Some (Inl e, p')
      | Some (Inr b, p') \<Rightarrow> Some (Inr (result p'), p'))"

text \<open>
  \<^verbatim>\<open>operator>>(std::istream&, Value&)\<close>: the handler catches \<^verbatim>\<open>ParserError\<close> and what
  derives from it. The result is the exception that leaves the operator, or the
  stream, the target value and the memory after it.
\<close>

definition op_extract ::
  "(string \<Rightarrow> 'n stod_result) \<Rightarrow> nat \<Rightarrow> istream \<Rightarrow> 'n Value \<Rightarrow> 'n heap \<Rightarrow> (error + (istream \<times> 'n Value \<times> 'n heap)) option" where
  "op_extract stod n in' target h =
     (case Parser_parseObject stod n (Parser_new in' h) of
        None \<Rightarrow> None
      | Some (Inr v, p') \<Rightarrow> Some (Inr (inp p', v, mem p'))
      | Some (Inl e, p') \<Rightarrow>
          if is_ParserError e then Some (Inr ((inp p')\<lparr>failbit := True\<rparr>, VNull, mem p'))
          else Some (Inl e))"

section \<open>The formatter (json.cpp lines 247-305)\<close>

record Formatter =
  flags :: "32 word"
  level :: "64 word"

definition Formatter_multiline :: "32 word" where
  "Formatter_multiline = 1"

definition Formatter_indented :: "32 word" where
  "Formatter_indented = 2"

text \<open>\<^verbatim>\<open>Formatter(unsigned flags = 0, size_t level = 0)\<close>.\<close>

definition Formatter_default :: Formatter where
  "Formatter_default = \<lparr>flags = 0, level = 0\<rparr>"

text \<open>
  \<^verbatim>\<open>out << std::quoted(s)\<close>: the delimiter, then the characters of \<open>s\<close> with the escape
  character written before each delimiter and each escape character, then the delimiter.
\<close>

definition std_quoted :: "string \<Rightarrow> string" where
  "std_quoted s =
     CHR 0x22 # concat (map (\<lambda>c. if c = CHR 0x22 \<or> c = CHR 0x5C then [CHR 0x5C, c] else [c]) s) @ [CHR 0x22]"


text \<open>
  The loops of \<^verbatim>\<open>print(out, const Array&)\<close> and \<^verbatim>\<open>print(out, const Object&)\<close>. \<open>pr\<close>
  is \<^verbatim>\<open>Formatter(flags, level + 1).print\<close> and \<open>tabs\<close> is
  \<^verbatim>\<open>std::string(level + 1, '\t')\<close>. The array loop writes the separator before every
  element but the one at the address of \<^verbatim>\<open>array[0]\<close>; the object loop before every
  entry whose key differs from the first key \<open>k0\<close>.
\<close>

fun print_Array_loop ::
  "('v \<Rightarrow> string option) \<Rightarrow> bool \<Rightarrow> bool \<Rightarrow> string \<Rightarrow> bool \<Rightarrow> 'v list \<Rightarrow> string option" where
  "print_Array_loop pr multiline indented tabs at0 [] = Some []"
| "print_Array_loop pr multiline indented tabs at0 (v # vs) =
     (case pr v of
        None \<Rightarrow> None
      | Some t \<Rightarrow>
          (case print_Array_loop pr multiline indented tabs False vs of
             None \<Rightarrow> None
           | Some rest \<Rightarrow>
               Some ((if \<not> at0 then [CHR '','', if multiline then CHR 0x0A else CHR '' ''] else [])
                     @ (if indented then tabs else []) @ t @ rest)))"

fun print_Object_loop ::
  "('v \<Rightarrow> string option) \<Rightarrow> bool \<Rightarrow> bool \<Rightarrow> string \<Rightarrow> string \<Rightarrow> (string \<times> 'v) list \<Rightarrow> string option" where
  "print_Object_loop pr multiline indented tabs k0 [] = Some []"
| "print_Object_loop pr multiline indented tabs k0 (entry # es) =
     (case pr (snd entry) of
        None \<Rightarrow> None
      | Some t \<Rightarrow>
          (case print_Object_loop pr multiline indented tabs k0 es of
             None \<Rightarrow> None
           | Some rest \<Rightarrow>
               Some ((if fst entry \<noteq> k0 then [CHR '','', if multiline then CHR 0x0A else CHR '' ''] else [])
                     @ (if indented then tabs else [])
                     @ std_quoted (fst entry) @ [CHR '':'', CHR '' ''] @ t @ rest)))"

definition Formatter_print_Array :: "('v \<Rightarrow> string option) \<Rightarrow> Formatter \<Rightarrow> 'v list \<Rightarrow> string option" where
  "Formatter_print_Array pr f array =
     (let multiline = (flags f AND Formatter_multiline \<noteq> 0);
          indented = (multiline \<and> flags f AND Formatter_indented \<noteq> 0)
      in (case print_Array_loop pr multiline indented (replicate (unat (level f + 1)) (CHR 0x09)) True array of
            None \<Rightarrow> None
          | Some body \<Rightarrow>
              Some ([CHR ''[''] @ (if multiline then [CHR 0x0A] else []) @ body
                    @ (if multiline then [CHR 0x0A] else [])
                    @ (if indented then replicate (unat (level f)) (CHR 0x09) else [])
                    @ [CHR '']''])))"

definition Formatter_print_Object :: "('v \<Rightarrow> string option) \<Rightarrow> Formatter \<Rightarrow> (string \<times> 'v) list \<Rightarrow> string option" where
  "Formatter_print_Object pr f object =
     (let multiline = (flags f AND Formatter_multiline \<noteq> 0);
          indented = (multiline \<and> flags f AND Formatter_indented \<noteq> 0)
      in (case print_Object_loop pr multiline indented (replicate (unat (level f + 1)) (CHR 0x09))
                 (case object of [] \<Rightarrow> [] | e # es \<Rightarrow> fst e) object of
            None \<Rightarrow> None
          | Some body \<Rightarrow>
              Some ([CHR ''{''] @ (if multiline then [CHR 0x0A] else []) @ body
                    @ (if multiline then [CHR 0x0A] else [])
                    @ (if indented then replicate (unat (level f)) (CHR 0x09) else [])
                    @ [CHR ''}''])))"

text \<open>
  \<^verbatim>\<open>Formatter::print(out, const Value&)\<close>: the text written to \<open>out\<close>. \<open>put\<close> is
  \<^verbatim>\<open>out << double\<close>. A container that holds a reference to itself makes the C++ recurse
  without end; the bound \<open>n\<close> on the nesting makes that \<open>None\<close>.
\<close>

fun Formatter_print :: "('n \<Rightarrow> string) \<Rightarrow> 'n heap \<Rightarrow> nat \<Rightarrow> Formatter \<Rightarrow> 'n Value \<Rightarrow> string option" where
  "Formatter_print put h 0 f v = None"
| "Formatter_print put h (Suc n) f v =
     (case v of
        VNull \<Rightarrow> Some ''null''
      | VBoolean b \<Rightarrow> Some (if b then ''true'' else ''false'')
      | VNumber x \<Rightarrow> Some (put x)
      | VString s \<Rightarrow> Some (std_quoted s)
      | VArray a \<Rightarrow>
          Formatter_print_Array (Formatter_print put h n \<lparr>flags = flags f, level = level f + 1\<rparr>) f (arrays h a)
      | VObject a \<Rightarrow>
          Formatter_print_Object (Formatter_print put h n \<lparr>flags = flags f, level = level f + 1\<rparr>) f (objects h a))"

text \<open>\<^verbatim>\<open>operator<<(std::ostream&, const Value&)\<close>: \<^verbatim>\<open>Formatter().print(out, value)\<close>.\<close>

definition op_insert :: "('n \<Rightarrow> string) \<Rightarrow> 'n heap \<Rightarrow> nat \<Rightarrow> 'n Value \<Rightarrow> string option" where
  "op_insert put h n v = Formatter_print put h n Formatter_default v"


section \<open>The test harness (test/tests.cpp)\<close>

text \<open>
  \<^verbatim>\<open>to_string\<close> prints with a default \<^verbatim>\<open>Formatter\<close> into a string stream;
  \<^verbatim>\<open>parseString\<close> reads a text with a new \<^verbatim>\<open>Parser\<close>. \<open>heap_empty\<close> is a memory
  that holds no container yet.
\<close>

definition to_string :: "('n \<Rightarrow> string) \<Rightarrow> 'n heap \<Rightarrow> nat \<Rightarrow> 'n Value \<Rightarrow> string option" where
  "to_string put h n v = Formatter_print put h n Formatter_default v"

definition parseString ::
  "(string \<Rightarrow> 'n stod_result) \<Rightarrow> nat \<Rightarrow> string \<Rightarrow> 'n heap \<Rightarrow> ((error + 'n Value) \<times> 'n Parser_State) option" where
  "parseString stod n source h = Parser_parseObject stod n (Parser_new (istream_of source) h)"

definition heap_empty :: "'n heap" where
  "heap_empty = \<lparr>arrays = (\<lambda>a. []), objects = (\<lambda>a. []), fresh = 0\<rparr>"

text \<open>
  Assignment through a reference to an array slot, as \<^verbatim>\<open>element\<close> and
  \<^verbatim>\<open>asArray()[i]\<close> return it. The slot must exist.
\<close>

definition store_element :: "'n heap \<Rightarrow> addr \<times> nat \<Rightarrow> 'n Value \<Rightarrow> 'n heap" where
  "store_element h slot x = h\<lparr>arrays := (arrays h)(fst slot := (arrays h (fst slot))[snd slot := x])\<rparr>"


section \<open>The contents of a Value and its compact text\<close>

text \<open>
  What a Value holds, read through the store: a tree with the elements of an array in
  order and the properties of an object in the order of the \<^verbatim>\<open>std::map\<close>.
\<close>

datatype 'n json =
    JNull
  | JBoolean bool
  | JNumber 'n
  | JString string
  | JArray "'n json list"
  | JObject "(string \<times> 'n json) list"

text \<open>
  \<^verbatim>\<open>holds_in A h v t\<close>: in store \<^verbatim>\<open>h\<close> the Value \<^verbatim>\<open>v\<close> has the contents \<^verbatim>\<open>t\<close>, and every
  container reached from \<^verbatim>\<open>v\<close> has its address in \<^verbatim>\<open>A\<close>.
\<close>

fun holds_in :: "addr set \<Rightarrow> 'n heap \<Rightarrow> 'n Value \<Rightarrow> 'n json \<Rightarrow> bool" where
  "holds_in A h VNull JNull = True"
| "holds_in A h (VBoolean b) (JBoolean c) = (b = c)"
| "holds_in A h (VNumber x) (JNumber y) = (x = y)"
| "holds_in A h (VString s) (JString t) = (s = t)"
| "holds_in A h (VArray a) (JArray ts) = (a \<in> A \<and> list_all2 (holds_in A h) (arrays h a) ts)"
| "holds_in A h (VObject a) (JObject kts) =
     (a \<in> A \<and> list_all2 (\<lambda>e kt. fst e = fst kt \<and> holds_in A h (snd e) (snd kt)) (objects h a) kts)"
| "holds_in A h _ _ = False"

text \<open>The characters from the space to the tilde.\<close>

definition printable :: "string \<Rightarrow> bool" where
  "printable s = list_all (\<lambda>c. 0x20 \<le> ord c \<and> ord c < 0x7f) s"

text \<open>
  The trees of the round trip: no empty array and no empty object, strings and property
  names of printable characters, property names in the strictly increasing order in which
  a \<^verbatim>\<open>std::map\<close> holds its keys, and numbers that satisfy \<^verbatim>\<open>numok\<close>.
\<close>

fun regular :: "('n \<Rightarrow> bool) \<Rightarrow> 'n json \<Rightarrow> bool" where
  "regular numok JNull = True"
| "regular numok (JBoolean b) = True"
| "regular numok (JNumber x) = numok x"
| "regular numok (JString s) = printable s"
| "regular numok (JArray ts) = (ts \<noteq> [] \<and> list_all (regular numok) ts)"
| "regular numok (JObject kts) =
     (kts \<noteq> [] \<and> sorted_wrt (<) (map fst kts)
      \<and> list_all (\<lambda>kt. printable (fst kt) \<and> regular numok (snd kt)) kts)"

text \<open>
  The text that \<^verbatim>\<open>Formatter::print\<close> writes under the default configuration
  (one line, a comma and a space between the items), as a function of the tree.
\<close>

fun commas :: "string list \<Rightarrow> string" where
  "commas [] = []"
| "commas (x # xs) = x @ concat (map (\<lambda>y. '', '' @ y) xs)"

fun compact :: "('n \<Rightarrow> string) \<Rightarrow> 'n json \<Rightarrow> string" where
  "compact put JNull = ''null''"
| "compact put (JBoolean b) = (if b then ''true'' else ''false'')"
| "compact put (JNumber x) = put x"
| "compact put (JString s) = std_quoted s"
| "compact put (JArray ts) = ''['' @ commas (map (compact put) ts) @ '']''"
| "compact put (JObject kts) =
     ''{'' @ commas (map (\<lambda>kt. std_quoted (fst kt) @ '': '' @ compact put (snd kt)) kts) @ ''}''"

text \<open>The nesting depth, which bounds the recursion of \<^verbatim>\<open>Formatter::print\<close>.\<close>

fun depth :: "'n json \<Rightarrow> nat" where
  "depth (JArray ts) = Suc (foldr max (map depth ts) 0)"
| "depth (JObject kts) = Suc (foldr max (map (\<lambda>kt. depth (snd kt)) kts) 0)"
| "depth _ = 1"

text \<open>
  The store \<^verbatim>\<open>h'\<close> has every container of \<^verbatim>\<open>h\<close> unchanged, and possibly new ones.
\<close>

definition extends :: "'n heap \<Rightarrow> 'n heap \<Rightarrow> bool" where
  "extends h h' = (fresh h \<le> fresh h' \<and> (\<forall>a<fresh h. arrays h' a = arrays h a \<and> objects h' a = objects h a))"

subsection \<open>Number tokens\<close>

text \<open>
  The texts of the rule \<^verbatim>\<open>number\<close> of the grammar table: an optional minus sign, then
  \<^verbatim>\<open>0\<close> or a digit sequence that starts with a digit from 1 to 9, then an optional
  fraction and an optional exponent.
\<close>

definition digits :: "string \<Rightarrow> bool" where
  "digits ds = list_all (\<lambda>c. Parser_digit (ord c)) ds"

definition int_part :: "string \<Rightarrow> bool" where
  "int_part ip = (ip = ''0'' \<or> (\<exists>d ds. ip = d # ds \<and> Parser_n0digit (ord d) \<and> digits ds))"

definition frac_part :: "string \<Rightarrow> bool" where
  "frac_part fr = (fr = [] \<or> (\<exists>d ds. fr = CHR ''.'' # d # ds \<and> Parser_digit (ord d) \<and> digits ds))"

definition exp_part :: "string \<Rightarrow> bool" where
  "exp_part ex =
     (ex = [] \<or> (\<exists>e sg d ds. ex = e # sg @ d # ds \<and> (e = CHR ''E'' \<or> e = CHR ''e'')
        \<and> (sg = [] \<or> sg = ''+'' \<or> sg = ''-'') \<and> Parser_digit (ord d) \<and> digits ds))"

definition number_token :: "string \<Rightarrow> bool" where
  "number_token tok =
     (\<exists>sg ip fr ex. tok = sg @ ip @ fr @ ex \<and> (sg = [] \<or> sg = ''-'')
        \<and> int_part ip \<and> frac_part fr \<and> exp_part ex)"

text \<open>
  A number whose printed text is a number token that \<^verbatim>\<open>std::stod\<close> converts back to
  the same number.
\<close>

definition reads_back :: "(string \<Rightarrow> 'n stod_result) \<Rightarrow> ('n \<Rightarrow> string) \<Rightarrow> 'n \<Rightarrow> bool" where
  "reads_back stod put x = (number_token (put x) \<and> stod (put x) = stod_returns x)"

subsection \<open>Rules without a bound\<close>

text \<open>
  The result of a rule once the bound is large enough: \<^verbatim>\<open>run\<close> at the least bound
  that gives a result, and \<^verbatim>\<open>None\<close> when no bound does. It is used in proofs only.
\<close>

definition exec :: "(string \<Rightarrow> 'n stod_result) \<Rightarrow> Rule \<Rightarrow> 'n Parser_State \<Rightarrow> 'n outcome option" where
  "exec stod r p = (if \<exists>n. run stod n r p \<noteq> None then run stod (LEAST n. run stod n r p \<noteq> None) r p else None)"

text \<open>A parser state whose stream is good.\<close>

abbreviation St ::
  "string \<Rightarrow> 64 word \<Rightarrow> 'n Value \<Rightarrow> string list \<Rightarrow> 'n Value list \<Rightarrow> string \<Rightarrow> 'n heap \<Rightarrow> 'n Parser_State" where
  "St b l r ns vs s h \<equiv>
     \<lparr>buffer = b, lines = l, result = r, nameStack = ns, valueStack = vs,
      inp = \<lparr>chars = s, eofbit = False, failbit = False\<rparr>, mem = h\<rparr>"

text \<open>The characters that may follow a value inside an array or an object.\<close>

definition stopper :: "char \<Rightarrow> bool" where
  "stopper c = (c = CHR '','' \<or> c = CHR ''}'' \<or> c = CHR '']'')"

text \<open>What \<^verbatim>\<open>std::quoted\<close> writes between the quotes.\<close>

definition escaped :: "string \<Rightarrow> string" where
  "escaped s = concat (map (\<lambda>c. if c = CHR 0x22 \<or> c = CHR 0x5C then [CHR 0x5C, c] else [c]) s)"

text \<open>The white space that the formatter writes before a value: none, or one space.\<close>

definition spaces :: "string \<Rightarrow> bool" where
  "spaces sp = (sp = [] \<or> sp = '' '')"

text \<open>
  The rule \<^verbatim>\<open>value\<close> reads the compact text of \<^verbatim>\<open>t\<close>, followed by a stopper, into a
  Value that holds \<^verbatim>\<open>t\<close> in containers allocated by this run.
\<close>

definition reads_value :: "(string \<Rightarrow> 'n stod_result) \<Rightarrow> ('n \<Rightarrow> string) \<Rightarrow> 'n json \<Rightarrow> bool" where
  "reads_value stod put t =
     (\<forall>b l r ns vs sp c cs h. spaces sp \<longrightarrow> stopper c \<longrightarrow>
        (\<exists>b' v h'. exec stod (Nonterminal ''value'') (St b l r ns vs (sp @ compact put t @ c # cs) h)
             = Some (Inr True, St b' l v ns vs (c # cs) h')
           \<and> holds_in {fresh h ..< fresh h'} h' v t \<and> extends h h'))"


section \<open>Properties of the Value model\<close>

lemma Value_type_array_iff: "Value_type v = Type_array \<longleftrightarrow> (\<exists>a. v = VArray a)"
  by (cases v) simp_all

lemma Value_type_object_iff: "Value_type v = Type_object \<longleftrightarrow> (\<exists>a. v = VObject a)"
  by (cases v) simp_all

text \<open>
  C10: for every value whose tag is not array, \<^verbatim>\<open>arrayLength\<close> returns 0, and for every
  value whose tag is not object and every name, \<^verbatim>\<open>hasProperty\<close> returns false. For
  every value, both queries return without throwing and leave the memory as it was.
\<close>

theorem C10_queries_total_and_pure:
  "(Value_type v \<noteq> Type_array \<longrightarrow> Value_arrayLength h v = Inr (0, h))
   \<and> (Value_type v \<noteq> Type_object \<longrightarrow> Value_hasProperty h v name = Inr (False, h))
   \<and> (\<exists>n. Value_arrayLength h v = Inr (n, h))
   \<and> (\<exists>b. Value_hasProperty h v name = Inr (b, h))"
  by (cases v) (auto simp add: Value_arrayLength_def Value_hasProperty_def)

theorem C10_queries_witness:
  "Value_type (VString ''abc'' :: int Value) \<noteq> Type_array
   \<and> Value_arrayLength heap_empty (VString ''abc'' :: int Value) = Inr (0, heap_empty)
   \<and> Value_type (VArray 0 :: int Value) \<noteq> Type_object
   \<and> Value_hasProperty heap_empty (VArray 0 :: int Value) ''k'' = Inr (False, heap_empty)"
  using C10_queries_total_and_pure [of "VString ''abc'' :: int Value" heap_empty "''k''"]
    C10_queries_total_and_pure [of "VArray 0 :: int Value" heap_empty "''k''"]
  by simp

lemma SIZE_MAX_minus_one: "SIZE_MAX = - 1"
  by (simp add: SIZE_MAX_def)

lemma unat_Suc_below_SIZE_MAX: "i < SIZE_MAX \<Longrightarrow> unat (i + 1) = Suc (unat i)"
proof -
  assume "i < SIZE_MAX"
  then have "i \<noteq> - 1"
    by (auto simp: SIZE_MAX_minus_one)
  then have "1 + i \<noteq> 0"
    by (simp add: add_eq_0_iff)
  then have "unat (1 + i) = Suc (unat i)"
    by (rule unatSuc)
  then show ?thesis
    by (simp add: add.commute)
qed

text \<open>
  C6, as the code has it: for an array value and an index \<open>i\<close> with
  \<^verbatim>\<open>arrayLength() <= i < SIZE_MAX\<close>, \<^verbatim>\<open>element(i)\<close> grows the shared array to length
  \<open>i + 1\<close>, the old elements kept and the new slots null, and returns the reference to
  slot \<open>i\<close>, provided that \<open>i + 1\<close> is at most \<^verbatim>\<open>max_size()\<close> of the array and the storage
  is obtained. If \<open>i + 1\<close> exceeds \<^verbatim>\<open>max_size()\<close>, \<^verbatim>\<open>element(i)\<close> throws the
  \<^verbatim>\<open>std::length_error\<close> of \<^verbatim>\<open>resize\<close>; if the storage is not obtained, it throws
  \<^verbatim>\<open>std::bad_alloc\<close>. For \<open>i\<close> at \<^verbatim>\<open>SIZE_MAX\<close> it throws \<^verbatim>\<open>std::out_of_range\<close>. Whenever
  it throws, nothing grows: no store is returned.
\<close>

theorem C6_element_autogrowth:
  "(Value_type v = Type_array \<and> Value_arrayLength h v = Inr (n, h) \<and> n \<le> unat i \<and> i < SIZE_MAX \<longrightarrow>
      (unat i + 1 \<le> max_size al \<and> allocates al (unat i + 1) \<longrightarrow>
        (\<exists>a h'. Value_asArray v = Inr a
          \<and> Value_element al h v i = Inr ((a, unat i), h')
          \<and> arrays h' a = arrays h a @ replicate (unat i + 1 - n) VNull
          \<and> length (arrays h' a) = unat i + 1
          \<and> arrays h' a ! unat i = VNull
          \<and> Value_arrayLength h' v = Inr (unat i + 1, h')))
      \<and> (max_size al < unat i + 1 \<longrightarrow> Value_element al h v i = Inl std_length_error)
      \<and> (unat i + 1 \<le> max_size al \<and> \<not> allocates al (unat i + 1) \<longrightarrow>
            Value_element al h v i = Inl std_bad_alloc))
   \<and> (SIZE_MAX \<le> i \<longrightarrow> Value_element al h v i = Inl std_out_of_range)"
proof (intro conjI impI)
  assume "SIZE_MAX \<le> i"
  then show "Value_element al h v i = Inl std_out_of_range"
    by (simp add: Value_element_def)
next
  assume asm: "Value_type v = Type_array \<and> Value_arrayLength h v = Inr (n, h) \<and> n \<le> unat i \<and> i < SIZE_MAX"
    and big: "max_size al < unat i + 1"
  then obtain a where v: "v = VArray a"
    by (auto simp: Value_type_array_iff)
  from asm v have n: "n = length (arrays h a)"
    by (simp add: Value_arrayLength_def)
  from asm have suc: "unat (i + 1) = Suc (unat i)"
    by (simp add: unat_Suc_below_SIZE_MAX)
  from asm have lt: "\<not> SIZE_MAX \<le> i"
    by (simp add: not_le)
  show "Value_element al h v i = Inl std_length_error"
    using asm big lt v n suc by (simp add: Value_element_def vector_resize_def)
next
  assume asm: "Value_type v = Type_array \<and> Value_arrayLength h v = Inr (n, h) \<and> n \<le> unat i \<and> i < SIZE_MAX"
    and fails: "unat i + 1 \<le> max_size al \<and> \<not> allocates al (unat i + 1)"
  then obtain a where v: "v = VArray a"
    by (auto simp: Value_type_array_iff)
  from asm v have n: "n = length (arrays h a)"
    by (simp add: Value_arrayLength_def)
  from asm have suc: "unat (i + 1) = Suc (unat i)"
    by (simp add: unat_Suc_below_SIZE_MAX)
  from asm have lt: "\<not> SIZE_MAX \<le> i"
    by (simp add: not_le)
  show "Value_element al h v i = Inl std_bad_alloc"
    using asm fails lt v n suc by (simp add: Value_element_def vector_resize_def)
next
  assume asm: "Value_type v = Type_array \<and> Value_arrayLength h v = Inr (n, h) \<and> n \<le> unat i \<and> i < SIZE_MAX"
    and ok: "unat i + 1 \<le> max_size al \<and> allocates al (unat i + 1)"
  then obtain a where v: "v = VArray a"
    by (auto simp: Value_type_array_iff)
  from v have as: "Value_asArray v = Inr a"
    by simp
  from asm v have n: "n = length (arrays h a)"
    by (simp add: Value_arrayLength_def)
  from asm have suc: "unat (i + 1) = Suc (unat i)"
    by (simp add: unat_Suc_below_SIZE_MAX)
  from asm have lt: "\<not> SIZE_MAX \<le> i"
    by (simp add: not_le)
  let ?h' = "h\<lparr>arrays := (arrays h)(a := arrays h a @ replicate (unat (i + 1) - length (arrays h a)) VNull)\<rparr>"
  have el: "Value_element al h v i = Inr ((a, unat i), ?h')"
    using asm ok lt v n suc by (simp add: Value_element_def vector_resize_def)
  have grown: "arrays ?h' a = arrays h a @ replicate (unat i + 1 - n) VNull"
    using asm n suc by simp
  have len: "length (arrays ?h' a) = unat i + 1"
    using asm n suc by simp
  have "unat i - n < Suc (unat i) - n"
    using asm by arith
  then have last: "arrays ?h' a ! unat i = VNull"
    using asm n suc by (simp add: nth_append)
  have al: "Value_arrayLength ?h' v = Inr (unat i + 1, ?h')"
    using len v by (simp add: Value_arrayLength_def)
  show "\<exists>a h'. Value_asArray v = Inr a
        \<and> Value_element al h v i = Inr ((a, unat i), h')
        \<and> arrays h' a = arrays h a @ replicate (unat i + 1 - n) VNull
        \<and> length (arrays h' a) = unat i + 1
        \<and> arrays h' a ! unat i = VNull
        \<and> Value_arrayLength h' v = Inr (unat i + 1, h')"
    using as el grown len last al by blast
qed

text \<open>
  On an empty array, with \<^verbatim>\<open>max_size()\<close> at \<open>2^59 - 1\<close> and storage for up to 1000
  elements: \<^verbatim>\<open>element(3)\<close> leaves four null elements, \<^verbatim>\<open>element(5000)\<close> throws
  \<^verbatim>\<open>std::bad_alloc\<close>, \<^verbatim>\<open>element(SIZE_MAX - 1)\<close> throws \<^verbatim>\<open>std::length_error\<close> and
  \<^verbatim>\<open>element(SIZE_MAX)\<close> throws \<^verbatim>\<open>std::out_of_range\<close>.
\<close>

theorem C6_element_witness:
  "Value_element \<lparr>max_size = 0x7FFFFFFFFFFFFFF, allocates = (\<lambda>n. n \<le> 1000)\<rparr>
      (snd (Value_Array heap_empty [])) (VArray 0 :: int Value) 3
     = Inr ((0, 3), \<lparr>arrays = (\<lambda>a. [])(0 := replicate 4 VNull), objects = (\<lambda>a. []), fresh = 1\<rparr>)
   \<and> Value_element \<lparr>max_size = 0x7FFFFFFFFFFFFFF, allocates = (\<lambda>n. n \<le> 1000)\<rparr>
      (snd (Value_Array heap_empty [])) (VArray 0 :: int Value) 5000 = Inl std_bad_alloc
   \<and> Value_element \<lparr>max_size = 0x7FFFFFFFFFFFFFF, allocates = (\<lambda>n. n \<le> 1000)\<rparr>
      (snd (Value_Array heap_empty [])) (VArray 0 :: int Value) 0xFFFFFFFFFFFFFFFE = Inl std_length_error
   \<and> Value_element \<lparr>max_size = 0x7FFFFFFFFFFFFFF, allocates = (\<lambda>n. n \<le> 1000)\<rparr>
      (snd (Value_Array heap_empty [])) (VArray 0 :: int Value) SIZE_MAX = Inl std_out_of_range"
proof -
  let ?h = "snd (Value_Array heap_empty []) :: int heap"
  let ?al = "\<lparr>max_size = 0x7FFFFFFFFFFFFFF, allocates = (\<lambda>n. n \<le> 1000)\<rparr>"
  have pre: "Value_type (VArray 0 :: int Value) = Type_array \<and> Value_arrayLength ?h (VArray 0) = Inr (0, ?h)"
    by (simp add: Value_arrayLength_def Value_Array_def heap_empty_def)
  have i3: "0 \<le> unat (3 :: 64 word) \<and> (3 :: 64 word) < SIZE_MAX
      \<and> unat (3 :: 64 word) + 1 \<le> max_size ?al \<and> allocates ?al (unat (3 :: 64 word) + 1)"
    by (simp add: SIZE_MAX_def)
  have i5000: "0 \<le> unat (5000 :: 64 word) \<and> (5000 :: 64 word) < SIZE_MAX
      \<and> unat (5000 :: 64 word) + 1 \<le> max_size ?al \<and> \<not> allocates ?al (unat (5000 :: 64 word) + 1)"
    by (simp add: SIZE_MAX_def)
  have ibig: "0 \<le> unat (0xFFFFFFFFFFFFFFFE :: 64 word) \<and> (0xFFFFFFFFFFFFFFFE :: 64 word) < SIZE_MAX
      \<and> max_size ?al < unat (0xFFFFFFFFFFFFFFFE :: 64 word) + 1"
    by (simp add: SIZE_MAX_def)
  from C6_element_autogrowth [of "VArray 0 :: int Value" ?h 0 3 ?al] pre i3
  obtain a h' where "Value_asArray (VArray 0 :: int Value) = Inr a"
    and "Value_element ?al ?h (VArray 0) 3 = Inr ((a, unat (3 :: 64 word)), h')"
    and "arrays h' a = arrays ?h a @ replicate (unat (3 :: 64 word) + 1 - 0) VNull"
    by blast
  moreover have "Value_element ?al ?h (VArray 0 :: int Value) 3
     = Inr ((0, 3), \<lparr>arrays = (\<lambda>a. [])(0 := replicate 4 VNull), objects = (\<lambda>a. []), fresh = 1\<rparr>)"
    by (simp add: Value_element_def Value_Array_def heap_empty_def SIZE_MAX_def vector_resize_def)
  moreover have "Value_element ?al ?h (VArray 0 :: int Value) 5000 = Inl std_bad_alloc"
    using C6_element_autogrowth [of "VArray 0 :: int Value" ?h 0 5000 ?al] pre i5000 by blast
  moreover have "Value_element ?al ?h (VArray 0 :: int Value) 0xFFFFFFFFFFFFFFFE = Inl std_length_error"
    using C6_element_autogrowth [of "VArray 0 :: int Value" ?h 0 "0xFFFFFFFFFFFFFFFE" ?al] pre ibig by blast
  moreover have "Value_element ?al ?h (VArray 0 :: int Value) SIZE_MAX = Inl std_out_of_range"
    using C6_element_autogrowth [of "VArray 0 :: int Value" ?h 0 SIZE_MAX ?al] by simp
  ultimately show ?thesis
    by simp
qed

text \<open>
  C6, as the claim has it, fails: the index \<open>SIZE_MAX - 1\<close> is below \<^verbatim>\<open>SIZE_MAX\<close>, and
  on an empty array \<^verbatim>\<open>element(SIZE_MAX - 1)\<close> does not grow the array to \<^verbatim>\<open>SIZE_MAX\<close>
  elements: \<^verbatim>\<open>resize\<close> throws \<^verbatim>\<open>std::length_error\<close>, here with \<^verbatim>\<open>max_size()\<close> at
  \<open>2^63 - 1\<close>, which no \<^verbatim>\<open>std::vector\<close> with 64-bit sizes exceeds, and an allocator that
  never fails.
\<close>

theorem C6_element_length_error:
  "Value_type (VArray 0 :: int Value) = Type_array
   \<and> Value_arrayLength (snd (Value_Array heap_empty [])) (VArray 0 :: int Value)
       = Inr (0, snd (Value_Array heap_empty []))
   \<and> (0xFFFFFFFFFFFFFFFE :: 64 word) < SIZE_MAX
   \<and> Value_element \<lparr>max_size = 0x7FFFFFFFFFFFFFFF, allocates = (\<lambda>n. True)\<rparr>
        (snd (Value_Array heap_empty [])) (VArray 0 :: int Value) 0xFFFFFFFFFFFFFFFE = Inl std_length_error"
  by (simp add: Value_element_def Value_arrayLength_def Value_Array_def heap_empty_def SIZE_MAX_def
      vector_resize_def)

text \<open>
  C2, as the code has it: for two values that both have tag array (or both tag object),
  \<^verbatim>\<open>equals\<close> returns true exactly when both refer to the same container. The contents
  of the containers are not looked at.
\<close>

theorem C2_equals_by_reference:
  "(Value_type v = Type_array \<and> Value_type w = Type_array \<longrightarrow>
      Value_equals deq v w = (Value_asArray v = Value_asArray w))
   \<and> (Value_type v = Type_object \<and> Value_type w = Type_object \<longrightarrow>
      Value_equals deq v w = (Value_asObject v = Value_asObject w))"
  by (cases v; cases w) (simp_all add: Value_equals_def)

theorem C2_equals_by_reference_witness:
  "Value_type (VArray 0 :: int Value) = Type_array \<and> Value_type (VArray 1 :: int Value) = Type_array
   \<and> Value_equals (=) (VArray 0 :: int Value) (VArray 1) = (Value_asArray (VArray 0 :: int Value) = Value_asArray (VArray 1 :: int Value))
   \<and> Value_type (VObject 2 :: int Value) = Type_object
   \<and> Value_equals (=) (VObject 2 :: int Value) (VObject 2) = (Value_asObject (VObject 2 :: int Value) = Value_asObject (VObject 2 :: int Value))"
  using C2_equals_by_reference [of "VArray 0 :: int Value" "VArray 1" "(=)"]
    C2_equals_by_reference [of "VObject 2 :: int Value" "VObject 2" "(=)"]
  by simp

text \<open>
  C2, as the claim has it, fails: two values constructed from the same
  \<^verbatim>\<open>Array{"dog", "cat"}\<close> hold containers with equal contents and are not equal.
  (\<^verbatim>\<open>tests.cpp\<close> asserts the same: \<^verbatim>\<open>(test = a, test2 = a), !(test == test2)\<close>.)
\<close>

theorem C2_equal_contents_unequal_values:
  "fst (Value_Array (heap_empty :: int heap) [VString ''dog'', VString ''cat'']) = VArray 0
   \<and> fst (Value_Array (snd (Value_Array (heap_empty :: int heap) [VString ''dog'', VString ''cat'']))
          [VString ''dog'', VString ''cat'']) = VArray 1
   \<and> Array_equal (=)
        (arrays (snd (Value_Array (snd (Value_Array (heap_empty :: int heap) [VString ''dog'', VString ''cat'']))
          [VString ''dog'', VString ''cat''])) 0)
        (arrays (snd (Value_Array (snd (Value_Array (heap_empty :: int heap) [VString ''dog'', VString ''cat'']))
          [VString ''dog'', VString ''cat''])) 1)
   \<and> \<not> Value_equals (=) (VArray 0 :: int Value) (VArray 1)"
  by (simp add: Value_Array_def heap_empty_def Array_equal_def Value_equals_def)

text \<open>
  C7: after \<^verbatim>\<open>Value v1(a); Value v2 = v1;\<close> an assignment to an element through
  \<^verbatim>\<open>v2.asArray()\<close> is seen through \<^verbatim>\<open>v1.asArray()\<close>, which is the same container, and
  \<^verbatim>\<open>v1 == v2\<close> holds. \<^verbatim>\<open>equals\<close> does not read the memory, so it holds before and
  after the assignment alike.
\<close>

theorem C7_reference_aliasing:
  "Value_Array h a = (v1, h1) \<and> v2 = Value_copy v1 \<and> Value_asArray v2 = Inr r2 \<and> i < length a
     \<and> h2 = store_element h1 (r2, i) x \<longrightarrow>
   Value_asArray v1 = Inr r2
   \<and> arrays h1 r2 = a
   \<and> arrays h2 r2 = a[i := x]
   \<and> arrays h2 r2 ! i = x
   \<and> Value_equals deq v1 v2
   \<and> Value_equals deq v2 v1"
  by (auto simp add: Value_Array_def Value_copy_def store_element_def Value_equals_def)

theorem C7_reference_aliasing_witness:
  "Value_Array heap_empty [VString ''dog'', VString ''cat''] = (VArray 0 :: int Value, snd (Value_Array heap_empty [VString ''dog'', VString ''cat'']))
   \<and> Value_asArray (Value_copy (VArray 0 :: int Value)) = Inr 0
   \<and> arrays (store_element (snd (Value_Array heap_empty [VString ''dog'', VString ''cat''])) (0, 1) (VNumber 7)) 0
       = [VString ''dog'', VNumber (7 :: int)]
   \<and> Value_equals (=) (VArray 0 :: int Value) (Value_copy (VArray 0))"
  using C7_reference_aliasing [of heap_empty "[VString ''dog'', VString ''cat'']" "VArray 0 :: int Value"
      "snd (Value_Array heap_empty [VString ''dog'', VString ''cat''])" "Value_copy (VArray 0)" 0 1
      "store_element (snd (Value_Array heap_empty [VString ''dog'', VString ''cat''])) (0, 1) (VNumber 7)" "VNumber 7" "(=)"]
  by (simp add: Value_Array_def heap_empty_def Value_copy_def)


section \<open>Running the parser\<close>

subsection \<open>Equations for evaluation\<close>

text \<open>The rules of the table, looked up once.\<close>

lemma Parser_rule_simps:
  "Parser_rule ''object'' = Inr (amp_chain (Terminal CHR ''{'') [op_bar (Nonterminal ''property_list'') (Nonterminal ''whitespace''), Terminal CHR ''}''])"
  "Parser_rule ''property_list'' = Inr (plus_chain (Mem_fn pushObject) [op_amp (Nonterminal ''property'') (op_star (op_amp (Terminal CHR '','') (Nonterminal ''property''))), Mem_fn compileCompound, Mem_fn finishCompound])"
  "Parser_rule ''property'' = Inr (op_plus (amp_chain (Nonterminal ''name'') [Terminal CHR '':'', Nonterminal ''value'']) (Mem_fn compileProperty))"
  "Parser_rule ''name'' = Inr (op_plus (plus_chain (Nonterminal ''whitespace'') [Nonterminal ''string'', Nonterminal ''whitespace'']) (Mem_fn compileName))"
  "Parser_rule ''array'' = Inr (amp_chain (Terminal CHR ''['') [op_bar (Nonterminal ''array_element_list'') (Nonterminal ''whitespace''), Terminal CHR '']''])"
  "Parser_rule ''array_element_list'' = Inr (plus_chain (Mem_fn pushArray) [op_amp (Nonterminal ''array_element'') (op_star (op_amp (Terminal CHR '','') (Nonterminal ''array_element''))), Mem_fn compileCompound, Mem_fn finishCompound])"
  "Parser_rule ''array_element'' = Inr (op_plus (Nonterminal ''value'') (Mem_fn compileArrayElement))"
  "Parser_rule ''value'' = Inr (plus_chain (Nonterminal ''whitespace'') [bar_chain (Nonterminal ''object'') [Nonterminal ''array'', Nonterminal ''string'', Nonterminal ''number'', Nonterminal ''symbol''], Nonterminal ''whitespace''])"
  "Parser_rule ''symbol'' = Inr (plus_chain (Mem_fn beginToken) [op_amp (Nonterminal ''symbol_char'') (op_star (Nonterminal ''symbol_char'')), Mem_fn compileSymbol])"
  "Parser_rule ''string'' = Inr (plus_chain (Mem_fn beginToken) [amp_chain (Terminal CHR 0x22) [op_star (Nonterminal ''string_content''), Terminal CHR 0x22], Mem_fn compileString])"
  "Parser_rule ''string_content'' = Inr (op_bar (Nonterminal ''escape'') (Nonterminal ''string_char''))"
  "Parser_rule ''escape'' = Inr (op_amp (Terminal CHR 0x5C) (Nonterminal ''escape_sequence''))"
  "Parser_rule ''escape_sequence'' = Inr (bar_chain (Terminal CHR 0x22) [Terminal CHR 0x5C, Terminal CHR ''/'', Terminal CHR ''b'', Terminal CHR ''f'', Terminal CHR ''n'', Terminal CHR ''r'', Terminal CHR ''t'', amp_chain (Terminal CHR ''u'') [Nonterminal ''xdigit'', Nonterminal ''xdigit'', Nonterminal ''xdigit'', Nonterminal ''xdigit'']])"
  "Parser_rule ''number'' = Inr (plus_chain (Mem_fn beginToken) [amp_chain (op_bar (op_amp (Terminal CHR ''-'') (Nonterminal ''digit_sequence'')) (Nonterminal ''digit_sequence'')) [op_tilde (Nonterminal ''fraction''), op_tilde (Nonterminal ''exponent'')], Mem_fn compileNumber])"
  "Parser_rule ''digit_sequence'' = Inr (op_bar (Terminal CHR ''0'') (Nonterminal ''nonzero_sequence''))"
  "Parser_rule ''nonzero_sequence'' = Inr (op_amp (Nonterminal ''nonzero_digit'') (op_star (Nonterminal ''digit'')))"
  "Parser_rule ''fraction'' = Inr (amp_chain (Terminal CHR ''.'') [Nonterminal ''digit'', op_star (Nonterminal ''digit'')])"
  "Parser_rule ''exponent'' = Inr (amp_chain (op_bar (Terminal CHR ''E'') (Terminal CHR ''e'')) [op_tilde (op_bar (Terminal CHR ''+'') (Terminal CHR ''-'')), Nonterminal ''digit'', op_star (Nonterminal ''digit'')])"
  "Parser_rule ''whitespace'' = Inr (op_star (Nonterminal ''whitespace_char''))"
  "Parser_rule ''symbol_char'' = Inr (Terminal_class letter)"
  "Parser_rule ''digit'' = Inr (Terminal_class digit)"
  "Parser_rule ''nonzero_digit'' = Inr (Terminal_class n0digit)"
  "Parser_rule ''xdigit'' = Inr (Terminal_class xdigit)"
  "Parser_rule ''whitespace_char'' = Inr (Terminal_class space)"
  "Parser_rule ''string_char'' = Inr (Terminal_class strchar)"
  by (simp_all add: Parser_rule_def Parser_initialRules_def)

text \<open>The equations of \<open>run\<close> for a bound written as a numeral.\<close>

lemma run_numeral:
  "run stod (numeral k) (Terminal what) p = (let (b, p') = Parser_read (ord what) p in Some (Inr b, p'))"
  "run stod (numeral k) (Terminal_class filter') p = (let (b, p') = Parser_read_class filter' p in Some (Inr b, p'))"
  "run stod (numeral k) (Nonterminal id') p =
     (case Parser_rule id' of Inl e \<Rightarrow> Some (Inl e, p) | Inr r \<Rightarrow> run stod (pred_numeral k) r p)"
  "run stod (numeral k) (Require r) p =
     (case run stod (pred_numeral k) r p of
        None \<Rightarrow> None
      | Some (Inl e, p') \<Rightarrow> Some (Inl e, p')
      | Some (Inr b, p') \<Rightarrow> if b then Some (Inr True, p') else Some (Inl SyntaxError, p'))"
  "run stod (numeral k) (Optional r) p =
     (case run stod (pred_numeral k) r p of
        None \<Rightarrow> None
      | Some (Inl e, p') \<Rightarrow> Some (Inl e, p')
      | Some (Inr b, p') \<Rightarrow> Some (Inr (b \<or> True), p'))"
  "run stod (numeral k) (Multiple r) p =
     (if \<not> istream_bool (inp p) then Some (Inr True, p)
      else (case run stod (pred_numeral k) r p of
              None \<Rightarrow> None
            | Some (Inl e, p') \<Rightarrow> Some (Inl e, p')
            | Some (Inr b, p') \<Rightarrow> if b then run stod (pred_numeral k) (Multiple r) p' else Some (Inr True, p')))"
  "run stod (numeral k) (Both first second) p =
     (case run stod (pred_numeral k) first p of
        None \<Rightarrow> None
      | Some (Inl e, p') \<Rightarrow> Some (Inl e, p')
      | Some (Inr b, p') \<Rightarrow> if b then run stod (pred_numeral k) second p' else Some (Inr False, p'))"
  "run stod (numeral k) (Either first second) p =
     (case run stod (pred_numeral k) first p of
        None \<Rightarrow> None
      | Some (Inl e, p') \<Rightarrow> Some (Inl e, p')
      | Some (Inr b, p') \<Rightarrow> if b then Some (Inr True, p') else run stod (pred_numeral k) second p')"
  "run stod (numeral k) (Mem_fn f) p = Some (MemFn_apply stod f p)"
  by (simp_all add: numeral_eq_Suc)

lemma char_of_ord: "char_of (ord c) = c"
  by (simp add: ord_def)

lemma ord_eq_iff: "ord c = ord d \<longleftrightarrow> c = d"
  by (simp add: ord_def)

lemma ord_not_eof: "ord c \<noteq> - 1" "\<not> ord c < 0"
  by (simp_all add: ord_def)

text \<open>
  What \<^verbatim>\<open>getc\<close> and \<^verbatim>\<open>read\<close> do on a good stream with a character to read, and at
  the end of the text.
\<close>

lemma Parser_getc_Cons:
  "inp p = \<lparr>chars = c # cs, eofbit = False, failbit = False\<rparr> \<Longrightarrow>
   Parser_getc p = p\<lparr>buffer := buffer p @ [c],
     lines := (if c = CHR 0x0A \<or> c = CHR 0x0D then lines p + 1 else lines p),
     inp := \<lparr>chars = cs, eofbit = False, failbit = False\<rparr>\<rparr>"
  by (simp add: Parser_getc_def istream_get_def istream_good_def char_of_ord ord_not_eof ord_eq_iff)

lemma Parser_read_Cons:
  "inp p = \<lparr>chars = c # cs, eofbit = False, failbit = False\<rparr> \<Longrightarrow>
   Parser_read w p =
     (if ord c = w
      then (True, p\<lparr>buffer := buffer p @ [c],
              lines := (if c = CHR 0x0A \<or> c = CHR 0x0D then lines p + 1 else lines p),
              inp := \<lparr>chars = cs, eofbit = False, failbit = False\<rparr>\<rparr>)
      else (False, p))"
  by (simp add: Parser_read_def istream_peek_def istream_good_def Parser_getc_Cons)

lemma Parser_read_class_Cons:
  "inp p = \<lparr>chars = c # cs, eofbit = False, failbit = False\<rparr> \<Longrightarrow>
   Parser_read_class f p =
     (if CharClass_apply f (ord c)
      then (True, p\<lparr>buffer := buffer p @ [c],
              lines := (if c = CHR 0x0A \<or> c = CHR 0x0D then lines p + 1 else lines p),
              inp := \<lparr>chars = cs, eofbit = False, failbit = False\<rparr>\<rparr>)
      else (False, p))"
  by (simp add: Parser_read_class_def istream_peek_def istream_good_def Parser_getc_Cons)

lemma CharClass_eof: "\<not> CharClass_apply f (- 1)"
  by (cases f) (simp_all add: Parser_letter_def Parser_digit_def Parser_n0digit_def Parser_xdigit_def
      Parser_space_def Parser_strchar_def ord_def)

lemma Parser_read_Nil:
  "inp p = \<lparr>chars = [], eofbit = e, failbit = f\<rparr> \<Longrightarrow>
   Parser_read (ord w) p = (False, p\<lparr>inp := \<lparr>chars = [], eofbit = (e \<or> \<not> f), failbit = (e \<or> f)\<rparr>\<rparr>)"
  using ord_not_eof(1) [of w]
  by (auto simp add: Parser_read_def istream_peek_def istream_good_def)

lemma Parser_read_class_Nil:
  "inp p = \<lparr>chars = [], eofbit = e, failbit = f\<rparr> \<Longrightarrow>
   Parser_read_class cl p = (False, p\<lparr>inp := \<lparr>chars = [], eofbit = (e \<or> \<not> f), failbit = (e \<or> f)\<rparr>\<rparr>)"
  by (auto simp add: Parser_read_class_def istream_peek_def istream_good_def CharClass_eof)

lemmas grammar_defs = amp_chain_def plus_chain_def bar_chain_def
  op_amp_def op_plus_def op_bar_def op_star_def op_tilde_def

lemmas read_simps = Parser_read_Cons Parser_read_class_Cons Parser_read_Nil Parser_read_class_Nil
  istream_bool_def ord_def
  Parser_letter_def Parser_digit_def Parser_n0digit_def Parser_xdigit_def Parser_space_def Parser_strchar_def

lemmas action_defs = Parser_beginToken_def Parser_pushObject_def Parser_pushArray_def Parser_finishCompound_def
  Parser_compileName_def Parser_compileProperty_def Parser_compileArrayElement_def Parser_compileCompound_def
  Parser_compileString_def Parser_compileNumber_def Parser_compileSymbol_def
  Parser_value_def Parser_pushValue_def Parser_popValue_def Parser_pushName_def Parser_popName_def
  Value_Object_def Value_Array_def Value_copy_def push_back_to_def

lemmas parse_defs = parseString_def Parser_parseObject_def Parser_new_def istream_of_def

lemmas run_eval = parse_defs run_numeral Parser_rule_simps grammar_defs read_simps action_defs

subsection \<open>A larger bound changes no result\<close>

lemma run_mono: "run stod n r p = Some out \<Longrightarrow> run stod (n + k) r p = Some out"
proof (induction n arbitrary: r p out)
  case 0
  then show ?case by simp
next
  case (Suc n)
  show ?case
  proof (cases r)
    case (Nonterminal x)
    with Suc show ?thesis by (cases out) (auto split: sum.splits)
  next
    case (Require x)
    with Suc show ?thesis by (cases out) (auto split: option.splits sum.splits if_splits)
  next
    case (Optional x)
    with Suc show ?thesis by (cases out) (auto split: option.splits sum.splits if_splits)
  next
    case (Multiple x)
    with Suc show ?thesis by (cases out) (auto split: option.splits sum.splits if_splits)
  next
    case (Both x y)
    with Suc show ?thesis by (cases out) (auto split: option.splits sum.splits if_splits)
  next
    case (Either x y)
    with Suc show ?thesis by (cases out) (auto split: option.splits sum.splits if_splits)
  qed (use Suc in simp_all)
qed

lemma Parser_parseObject_mono:
  "Parser_parseObject stod n p = Some out \<Longrightarrow> Parser_parseObject stod (n + k) p = Some out"
  by (auto simp: Parser_parseObject_def split: option.splits sum.splits prod.splits dest: run_mono [where k = k])

lemma parseString_mono: "parseString stod n s h = Some out \<Longrightarrow> parseString stod (n + k) s h = Some out"
  by (simp add: parseString_def Parser_parseObject_mono)

lemma op_extract_mono:
  "op_extract stod n i t h = Some out \<Longrightarrow> op_extract stod (n + k) i t h = Some out"
  by (auto simp: op_extract_def split: option.splits sum.splits prod.splits if_splits dest: Parser_parseObject_mono [where k = k])

section \<open>Properties of the parser and the formatter on given texts\<close>

text \<open>
  C9: \<^verbatim>\<open>parseObject\<close> on the text \<^verbatim>\<open>{}\<close> returns without an exception, with all of
  the text read, and the value returned is null: the \<^verbatim>\<open>property_list\<close> alternative
  fails, the \<^verbatim>\<open>whitespace\<close> alternative matches, and nothing is written to the result.
\<close>

theorem C9_empty_object_text_yields_null:
  "\<exists>p. parseString stod (40 + k) ''{}'' h = Some (Inr VNull, p) \<and> chars (inp p) = [] \<and> result p = VNull"
proof -
  have "\<exists>p. parseString stod 40 ''{}'' h = Some (Inr VNull, p) \<and> chars (inp p) = [] \<and> result p = VNull"
    by (simp add: run_eval)
  then show ?thesis
    by (blast dest: parseString_mono)
qed

text \<open>
  C3, at an input where the code departs from it: the string token with the escape
  \<^verbatim>\<open>u0041\<close> behind a backslash is matched, and the string compiled for it is the
  backslash and the five characters after it, not the letter A.
\<close>

theorem C3_unicode_escape_left_undecoded:
  \<open>\<exists>p. parseString stod (80 + k) (''{"k": "'' @ [CHR 0x5C] @ ''u0041"}'') h = Some (Inr (VObject (fresh h)), p)
       \<and> objects (mem p) (fresh h) = [(''k'', VString ([CHR 0x5C] @ ''u0041''))]\<close>
proof -
  have \<open>\<exists>p. parseString stod 80 (''{"k": "'' @ [CHR 0x5C] @ ''u0041"}'') h = Some (Inr (VObject (fresh h)), p)
       \<and> objects (mem p) (fresh h) = [(''k'', VString ([CHR 0x5C] @ ''u0041''))]\<close>
    by (simp add: run_eval)
  then show ?thesis
    by (blast dest: parseString_mono)
qed

text \<open>
  The other part of C3 holds: the token with \<^verbatim>\<open>a\<close>, backslash, \<^verbatim>\<open>n\<close>, \<^verbatim>\<open>b\<close>
  between the quotes yields the string a, newline, b.
\<close>

lemma escape_newline_decoded:
  \<open>\<exists>p. parseString stod 80 (''{"k": "a'' @ [CHR 0x5C] @ ''nb"}'') h = Some (Inr (VObject (fresh h)), p)
       \<and> objects (mem p) (fresh h) = [(''k'', VString [CHR ''a'', CHR 0x0A, CHR ''b''])]\<close>
  by (simp add: run_eval)

text \<open>
  C4, at an input where the code departs from it: while \<^verbatim>\<open>operator>>\<close> reads
  \<^verbatim>\<open>{"a": []}\<close>, \<^verbatim>\<open>compileProperty\<close> throws \<^verbatim>\<open>TypeError\<close>, which the handler for
  \<^verbatim>\<open>ParserError\<close> does not catch: the exception leaves the operator.
\<close>

theorem C4_TypeError_leaves_extraction:
  \<open>op_extract stod (80 + k) (istream_of ''{"a": []}'') target h = Some (Inl TypeError)\<close>
proof -
  have \<open>op_extract stod 80 (istream_of ''{"a": []}'') target h = Some (Inl TypeError)\<close>
    by (simp add: op_extract_def run_eval)
  then show ?thesis
    by (rule op_extract_mono)
qed

text \<open>
  An exception of \<^verbatim>\<open>std::stod\<close> other than \<^verbatim>\<open>std::invalid_argument\<close> leaves the
  operator in the same way.
\<close>

lemma stod_out_of_range_leaves_extraction:
  \<open>stod ''1e999'' = stod_out_of_range \<Longrightarrow>
   op_extract stod 80 (istream_of ''{"a": 1e999}'') target h = Some (Inl std_out_of_range)\<close>
  by (simp add: op_extract_def run_eval)

text \<open>
  C5, at an input where the code departs from it: the newline of the string a,
  newline, b is written as it is, with no backslash before it.
\<close>

theorem C5_control_character_written_raw:
  "to_string put h (Suc k) (VString [CHR ''a'', CHR 0x0A, CHR ''b'']) = Some [CHR 0x22, CHR ''a'', CHR 0x0A, CHR ''b'', CHR 0x22]"
  by (simp add: to_string_def std_quoted_def)

text \<open>The parser does not accept what the formatter wrote there.\<close>

lemma raw_newline_rejected:
  \<open>\<exists>p. parseString stod 80 (''{"k": "a'' @ [CHR 0x0A] @ ''b"}'') h = Some (Inl SyntaxError, p)\<close>
  by (simp add: run_eval)

text \<open>
  C8, as the code has it: \<^verbatim>\<open>parseObject\<close>, the one entry point of the parser, reads
  objects only, so the number literals are read as the value of a property. There
  \<^verbatim>\<open>0\<close>, \<^verbatim>\<open>-0\<close>, \<^verbatim>\<open>3.14\<close> and \<^verbatim>\<open>1e10\<close> are parsed into the number that \<^verbatim>\<open>std::stod\<close>
  returns for the token (given that it returns one), and \<^verbatim>\<open>01\<close> and \<^verbatim>\<open>+1\<close> end in
  \<^verbatim>\<open>SyntaxError\<close>. The six literals alone, as the whole text, all end in
  \<^verbatim>\<open>SyntaxError\<close>.
\<close>

theorem C8_number_literal_boundary:
  assumes "stod ''0'' = stod_returns x0" and "stod ''-0'' = stod_returns x1"
    and "stod ''3.14'' = stod_returns x2" and "stod ''1e10'' = stod_returns x3"
  shows \<open>(\<exists>p. parseString stod (80 + k) ''{"k": 0}'' h = Some (Inr (VObject (fresh h)), p)
            \<and> objects (mem p) (fresh h) = [(''k'', VNumber x0)])
    \<and> (\<exists>p. parseString stod (80 + k) ''{"k": -0}'' h = Some (Inr (VObject (fresh h)), p)
            \<and> objects (mem p) (fresh h) = [(''k'', VNumber x1)])
    \<and> (\<exists>p. parseString stod (80 + k) ''{"k": 3.14}'' h = Some (Inr (VObject (fresh h)), p)
            \<and> objects (mem p) (fresh h) = [(''k'', VNumber x2)])
    \<and> (\<exists>p. parseString stod (80 + k) ''{"k": 1e10}'' h = Some (Inr (VObject (fresh h)), p)
            \<and> objects (mem p) (fresh h) = [(''k'', VNumber x3)])
    \<and> (\<exists>p. parseString stod (80 + k) ''{"k": 01}'' h = Some (Inl SyntaxError, p))
    \<and> (\<exists>p. parseString stod (80 + k) ''{"k": +1}'' h = Some (Inl SyntaxError, p))
    \<and> (\<exists>p. parseString stod (80 + k) ''0'' h = Some (Inl SyntaxError, p))
    \<and> (\<exists>p. parseString stod (80 + k) ''-0'' h = Some (Inl SyntaxError, p))
    \<and> (\<exists>p. parseString stod (80 + k) ''3.14'' h = Some (Inl SyntaxError, p))
    \<and> (\<exists>p. parseString stod (80 + k) ''1e10'' h = Some (Inl SyntaxError, p))
    \<and> (\<exists>p. parseString stod (80 + k) ''01'' h = Some (Inl SyntaxError, p))
    \<and> (\<exists>p. parseString stod (80 + k) ''+1'' h = Some (Inl SyntaxError, p))\<close>
proof -
  have a: \<open>\<exists>p. parseString stod 80 ''{"k": 0}'' h = Some (Inr (VObject (fresh h)), p)
            \<and> objects (mem p) (fresh h) = [(''k'', VNumber x0)]\<close>
    using assms(1) by (simp add: run_eval)
  have b: \<open>\<exists>p. parseString stod 80 ''{"k": -0}'' h = Some (Inr (VObject (fresh h)), p)
            \<and> objects (mem p) (fresh h) = [(''k'', VNumber x1)]\<close>
    using assms(2) by (simp add: run_eval)
  have c: \<open>\<exists>p. parseString stod 80 ''{"k": 3.14}'' h = Some (Inr (VObject (fresh h)), p)
            \<and> objects (mem p) (fresh h) = [(''k'', VNumber x2)]\<close>
    using assms(3) by (simp add: run_eval)
  have d: \<open>\<exists>p. parseString stod 80 ''{"k": 1e10}'' h = Some (Inr (VObject (fresh h)), p)
            \<and> objects (mem p) (fresh h) = [(''k'', VNumber x3)]\<close>
    using assms(4) by (simp add: run_eval)
  have e: \<open>\<exists>p. parseString stod 80 ''{"k": 01}'' h = Some (Inl SyntaxError, p)\<close>
    using assms(1) by (simp add: run_eval)
  have f: \<open>\<exists>p. parseString stod 80 ''{"k": +1}'' h = Some (Inl SyntaxError, p)\<close>
    by (simp add: run_eval)
  have a': "\<exists>p. parseString stod 80 ''0'' h = Some (Inl SyntaxError, p)"
    by (simp add: run_eval)
  have b': "\<exists>p. parseString stod 80 ''-0'' h = Some (Inl SyntaxError, p)"
    by (simp add: run_eval)
  have c': "\<exists>p. parseString stod 80 ''3.14'' h = Some (Inl SyntaxError, p)"
    by (simp add: run_eval)
  have d': "\<exists>p. parseString stod 80 ''1e10'' h = Some (Inl SyntaxError, p)"
    by (simp add: run_eval)
  have e': "\<exists>p. parseString stod 80 ''01'' h = Some (Inl SyntaxError, p)"
    by (simp add: run_eval)
  have f': "\<exists>p. parseString stod 80 ''+1'' h = Some (Inl SyntaxError, p)"
    by (simp add: run_eval)
  show ?thesis
  proof (intro conjI)
    show \<open>\<exists>p. parseString stod (80 + k) ''{"k": 0}'' h = Some (Inr (VObject (fresh h)), p)
            \<and> objects (mem p) (fresh h) = [(''k'', VNumber x0)]\<close>
      using a by (blast dest: parseString_mono)
    show \<open>\<exists>p. parseString stod (80 + k) ''{"k": -0}'' h = Some (Inr (VObject (fresh h)), p)
            \<and> objects (mem p) (fresh h) = [(''k'', VNumber x1)]\<close>
      using b by (blast dest: parseString_mono)
    show \<open>\<exists>p. parseString stod (80 + k) ''{"k": 3.14}'' h = Some (Inr (VObject (fresh h)), p)
            \<and> objects (mem p) (fresh h) = [(''k'', VNumber x2)]\<close>
      using c by (blast dest: parseString_mono)
    show \<open>\<exists>p. parseString stod (80 + k) ''{"k": 1e10}'' h = Some (Inr (VObject (fresh h)), p)
            \<and> objects (mem p) (fresh h) = [(''k'', VNumber x3)]\<close>
      using d by (blast dest: parseString_mono)
    show \<open>\<exists>p. parseString stod (80 + k) ''{"k": 01}'' h = Some (Inl SyntaxError, p)\<close>
      using e by (blast dest: parseString_mono)
    show \<open>\<exists>p. parseString stod (80 + k) ''{"k": +1}'' h = Some (Inl SyntaxError, p)\<close>
      using f by (blast dest: parseString_mono)
    show "\<exists>p. parseString stod (80 + k) ''0'' h = Some (Inl SyntaxError, p)"
      using a' by (blast dest: parseString_mono)
    show "\<exists>p. parseString stod (80 + k) ''-0'' h = Some (Inl SyntaxError, p)"
      using b' by (blast dest: parseString_mono)
    show "\<exists>p. parseString stod (80 + k) ''3.14'' h = Some (Inl SyntaxError, p)"
      using c' by (blast dest: parseString_mono)
    show "\<exists>p. parseString stod (80 + k) ''1e10'' h = Some (Inl SyntaxError, p)"
      using d' by (blast dest: parseString_mono)
    show "\<exists>p. parseString stod (80 + k) ''01'' h = Some (Inl SyntaxError, p)"
      using e' by (blast dest: parseString_mono)
    show "\<exists>p. parseString stod (80 + k) ''+1'' h = Some (Inl SyntaxError, p)"
      using f' by (blast dest: parseString_mono)
  qed
qed

text \<open>
  With a \<^verbatim>\<open>std::stod\<close> that returns the token itself and an empty store: the four
  accepted literals as property values, the two rejected ones, and the six literals alone.
\<close>

theorem C8_number_literal_witness:
  \<open>stod_returns ''0'' = stod_returns ''0''
    \<and> (\<exists>p. parseString stod_returns 80 ''{"k": 0}'' (heap_empty :: string heap) = Some (Inr (VObject 0), p)
            \<and> objects (mem p) 0 = [(''k'', VNumber ''0'')])
    \<and> (\<exists>p. parseString stod_returns 80 ''{"k": -0}'' (heap_empty :: string heap) = Some (Inr (VObject 0), p)
            \<and> objects (mem p) 0 = [(''k'', VNumber ''-0'')])
    \<and> (\<exists>p. parseString stod_returns 80 ''{"k": 3.14}'' (heap_empty :: string heap) = Some (Inr (VObject 0), p)
            \<and> objects (mem p) 0 = [(''k'', VNumber ''3.14'')])
    \<and> (\<exists>p. parseString stod_returns 80 ''{"k": 1e10}'' (heap_empty :: string heap) = Some (Inr (VObject 0), p)
            \<and> objects (mem p) 0 = [(''k'', VNumber ''1e10'')])
    \<and> (\<exists>p. parseString stod_returns 80 ''{"k": 01}'' (heap_empty :: string heap) = Some (Inl SyntaxError, p))
    \<and> (\<exists>p. parseString stod_returns 80 ''{"k": +1}'' (heap_empty :: string heap) = Some (Inl SyntaxError, p))
    \<and> (\<exists>p. parseString stod_returns 80 ''3.14'' (heap_empty :: string heap) = Some (Inl SyntaxError, p))
    \<and> (\<exists>p. parseString stod_returns 80 ''01'' (heap_empty :: string heap) = Some (Inl SyntaxError, p))\<close>
  using C8_number_literal_boundary [of stod_returns "''0''" "''-0''" "''3.14''" "''1e10''" 0 "heap_empty :: string heap"]
  by (simp add: heap_empty_def)

text \<open>
  C8, as the claim has it, fails: parsing the text \<^verbatim>\<open>0\<close>, \<^verbatim>\<open>-0\<close>, \<^verbatim>\<open>3.14\<close> or
  \<^verbatim>\<open>1e10\<close> with \<^verbatim>\<open>parseObject\<close> does not succeed. Each ends in \<^verbatim>\<open>SyntaxError\<close>, as
  \<^verbatim>\<open>01\<close> and \<^verbatim>\<open>+1\<close> do, the text not being an object.
\<close>

theorem C8_bare_number_literal_rejected:
  "map_option fst (parseString stod_returns 80 ''0'' (heap_empty :: string heap)) = Some (Inl SyntaxError)
   \<and> map_option fst (parseString stod_returns 80 ''-0'' (heap_empty :: string heap)) = Some (Inl SyntaxError)
   \<and> map_option fst (parseString stod_returns 80 ''3.14'' (heap_empty :: string heap)) = Some (Inl SyntaxError)
   \<and> map_option fst (parseString stod_returns 80 ''1e10'' (heap_empty :: string heap)) = Some (Inl SyntaxError)"
  by (simp add: run_eval)


section \<open>The result of a rule for every large enough bound\<close>

lemma run_mono_le: "run stod n r p = Some out \<Longrightarrow> n \<le> m \<Longrightarrow> run stod m r p = Some out"
  using run_mono [of stod n r p out "m - n"] by simp

lemma run_exec: "run stod n r p = Some out \<Longrightarrow> exec stod r p = Some out"
proof -
  assume a: "run stod n r p = Some out"
  then have "run stod n r p \<noteq> None"
    by simp
  then have ex: "\<exists>n. run stod n r p \<noteq> None"
    by (rule exI)
  then have "run stod (LEAST n. run stod n r p \<noteq> None) r p \<noteq> None"
    by (rule LeastI_ex)
  then obtain out' where l: "run stod (LEAST n. run stod n r p \<noteq> None) r p = Some out'"
    by auto
  have "(LEAST n. run stod n r p \<noteq> None) \<le> n"
    using a by (intro Least_le) simp
  with l have "run stod n r p = Some out'"
    by (rule run_mono_le)
  with a l ex show ?thesis
    by (simp add: exec_def)
qed

lemma exec_Some_iff: "exec stod r p = Some out \<longleftrightarrow> (\<exists>n. run stod n r p = Some out)"
proof
  assume "exec stod r p = Some out"
  then show "\<exists>n. run stod n r p = Some out"
    by (auto simp: exec_def split: if_splits)
next
  assume "\<exists>n. run stod n r p = Some out"
  then show "exec stod r p = Some out"
    by (auto dest: run_exec)
qed

lemma run_eventually_exec: "\<exists>n. \<forall>m\<ge>n. run stod m r p = exec stod r p"
proof (cases "exec stod r p")
  case None
  then have "\<forall>m. run stod m r p = None"
    by (metis exec_Some_iff not_Some_eq)
  with None show ?thesis by simp
next
  case (Some out)
  then obtain n where "run stod n r p = Some out"
    by (auto simp: exec_Some_iff)
  then have "\<forall>m\<ge>n. run stod m r p = Some out"
    by (auto intro: run_mono_le)
  with Some show ?thesis by auto
qed

lemma exec_Terminal: "exec stod (Terminal what) p = (let (b, p') = Parser_read (ord what) p in Some (Inr b, p'))"
proof (cases "Parser_read (ord what) p")
  case (Pair b p')
  then have "run stod (Suc 0) (Terminal what) p = Some (Inr b, p')"
    by simp
  then have "exec stod (Terminal what) p = Some (Inr b, p')"
    by (rule run_exec)
  then show ?thesis
    using Pair by simp
qed

lemma exec_Terminal_class:
  "exec stod (Terminal_class f) p = (let (b, p') = Parser_read_class f p in Some (Inr b, p'))"
proof (cases "Parser_read_class f p")
  case (Pair b p')
  then have "run stod (Suc 0) (Terminal_class f) p = Some (Inr b, p')"
    by simp
  then have "exec stod (Terminal_class f) p = Some (Inr b, p')"
    by (rule run_exec)
  then show ?thesis
    using Pair by simp
qed

lemma exec_Mem_fn: "exec stod (Mem_fn f) p = Some (MemFn_apply stod f p)"
proof -
  have "run stod (Suc 0) (Mem_fn f) p = Some (MemFn_apply stod f p)"
    by simp
  then show ?thesis
    by (rule run_exec)
qed

lemma exec_Nonterminal:
  "exec stod (Nonterminal id') p = (case Parser_rule id' of Inl e \<Rightarrow> Some (Inl e, p) | Inr r \<Rightarrow> exec stod r p)"
proof (cases "Parser_rule id'")
  case (Inl e)
  then have "run stod (Suc 0) (Nonterminal id') p = Some (Inl e, p)"
    by simp
  then have "exec stod (Nonterminal id') p = Some (Inl e, p)"
    by (rule run_exec)
  then show ?thesis
    using Inl by simp
next
  case (Inr r)
  obtain n1 where n1: "\<forall>m\<ge>n1. run stod m r p = exec stod r p"
    using run_eventually_exec by blast
  obtain n2 where n2: "\<forall>m\<ge>n2. run stod m (Nonterminal id') p = exec stod (Nonterminal id') p"
    using run_eventually_exec by blast
  have "n2 \<le> Suc (n1 + n2)"
    by simp
  with n2 have "run stod (Suc (n1 + n2)) (Nonterminal id') p = exec stod (Nonterminal id') p"
    by blast
  moreover have "run stod (Suc (n1 + n2)) (Nonterminal id') p = exec stod r p"
    using n1 Inr by simp
  ultimately show ?thesis
    using Inr by simp
qed

lemma exec_Both:
  "exec stod (Both first second) p =
     (case exec stod first p of
        None \<Rightarrow> None
      | Some (Inl e, p') \<Rightarrow> Some (Inl e, p')
      | Some (Inr b, p') \<Rightarrow> if b then exec stod second p' else Some (Inr False, p'))"
proof -
  obtain n1 where n1: "\<forall>m\<ge>n1. run stod m first p = exec stod first p"
    using run_eventually_exec by blast
  obtain n2 where n2: "\<forall>q. exec stod first p = Some (Inr True, q) \<longrightarrow> (\<forall>m\<ge>n2. run stod m second q = exec stod second q)"
    using run_eventually_exec [of stod second] by (cases "exec stod first p") (auto, metis)
  obtain n3 where n3: "\<forall>m\<ge>n3. run stod m (Both first second) p = exec stod (Both first second) p"
    using run_eventually_exec by blast
  let ?m = "n1 + n2 + n3"
  have "n3 \<le> Suc ?m"
    by simp
  with n3 have "run stod (Suc ?m) (Both first second) p = exec stod (Both first second) p"
    by blast
  moreover have "run stod ?m first p = exec stod first p"
    using n1 by simp
  moreover have "\<forall>q. exec stod first p = Some (Inr True, q) \<longrightarrow> run stod ?m second q = exec stod second q"
    using n2 by simp
  ultimately show ?thesis
    by (auto split: option.splits sum.splits prod.splits)
qed

lemma exec_Either:
  "exec stod (Either first second) p =
     (case exec stod first p of
        None \<Rightarrow> None
      | Some (Inl e, p') \<Rightarrow> Some (Inl e, p')
      | Some (Inr b, p') \<Rightarrow> if b then Some (Inr True, p') else exec stod second p')"
proof -
  obtain n1 where n1: "\<forall>m\<ge>n1. run stod m first p = exec stod first p"
    using run_eventually_exec by blast
  obtain n2 where n2: "\<forall>q. exec stod first p = Some (Inr False, q) \<longrightarrow> (\<forall>m\<ge>n2. run stod m second q = exec stod second q)"
    using run_eventually_exec [of stod second] by (cases "exec stod first p") (auto, metis)
  obtain n3 where n3: "\<forall>m\<ge>n3. run stod m (Either first second) p = exec stod (Either first second) p"
    using run_eventually_exec by blast
  let ?m = "n1 + n2 + n3"
  have "n3 \<le> Suc ?m"
    by simp
  with n3 have "run stod (Suc ?m) (Either first second) p = exec stod (Either first second) p"
    by blast
  moreover have "run stod ?m first p = exec stod first p"
    using n1 by simp
  moreover have "\<forall>q. exec stod first p = Some (Inr False, q) \<longrightarrow> run stod ?m second q = exec stod second q"
    using n2 by simp
  ultimately show ?thesis
    by (auto split: option.splits sum.splits prod.splits)
qed

lemma exec_Require:
  "exec stod (Require r) p =
     (case exec stod r p of
        None \<Rightarrow> None
      | Some (Inl e, p') \<Rightarrow> Some (Inl e, p')
      | Some (Inr b, p') \<Rightarrow> if b then Some (Inr True, p') else Some (Inl SyntaxError, p'))"
proof -
  obtain n1 where n1: "\<forall>m\<ge>n1. run stod m r p = exec stod r p"
    using run_eventually_exec by blast
  obtain n3 where n3: "\<forall>m\<ge>n3. run stod m (Require r) p = exec stod (Require r) p"
    using run_eventually_exec by blast
  let ?m = "n1 + n3"
  have "n3 \<le> Suc ?m"
    by simp
  with n3 have "run stod (Suc ?m) (Require r) p = exec stod (Require r) p"
    by blast
  moreover have "run stod ?m r p = exec stod r p"
    using n1 by simp
  ultimately show ?thesis
    by (auto split: option.splits sum.splits prod.splits)
qed

lemma exec_Optional:
  "exec stod (Optional r) p =
     (case exec stod r p of
        None \<Rightarrow> None
      | Some (Inl e, p') \<Rightarrow> Some (Inl e, p')
      | Some (Inr b, p') \<Rightarrow> Some (Inr True, p'))"
proof -
  obtain n1 where n1: "\<forall>m\<ge>n1. run stod m r p = exec stod r p"
    using run_eventually_exec by blast
  obtain n3 where n3: "\<forall>m\<ge>n3. run stod m (Optional r) p = exec stod (Optional r) p"
    using run_eventually_exec by blast
  let ?m = "n1 + n3"
  have "n3 \<le> Suc ?m"
    by simp
  with n3 have "run stod (Suc ?m) (Optional r) p = exec stod (Optional r) p"
    by blast
  moreover have "run stod ?m r p = exec stod r p"
    using n1 by simp
  ultimately show ?thesis
    by (auto split: option.splits sum.splits prod.splits)
qed

lemma exec_Multiple:
  "exec stod (Multiple r) p =
     (if \<not> istream_bool (inp p) then Some (Inr True, p)
      else (case exec stod r p of
              None \<Rightarrow> None
            | Some (Inl e, p') \<Rightarrow> Some (Inl e, p')
            | Some (Inr b, p') \<Rightarrow> if b then exec stod (Multiple r) p' else Some (Inr True, p')))"
proof -
  obtain n1 where n1: "\<forall>m\<ge>n1. run stod m r p = exec stod r p"
    using run_eventually_exec by blast
  obtain n2 where n2: "\<forall>q. exec stod r p = Some (Inr True, q) \<longrightarrow> (\<forall>m\<ge>n2. run stod m (Multiple r) q = exec stod (Multiple r) q)"
    using run_eventually_exec [of stod "Multiple r"] by (cases "exec stod r p") (auto, metis)
  obtain n3 where n3: "\<forall>m\<ge>n3. run stod m (Multiple r) p = exec stod (Multiple r) p"
    using run_eventually_exec by blast
  let ?m = "n1 + n2 + n3"
  have "n3 \<le> Suc ?m"
    by simp
  with n3 have "run stod (Suc ?m) (Multiple r) p = exec stod (Multiple r) p"
    by blast
  moreover have "run stod ?m r p = exec stod r p"
    using n1 by simp
  moreover have "\<forall>q. exec stod r p = Some (Inr True, q) \<longrightarrow> run stod ?m (Multiple r) q = exec stod (Multiple r) q"
    using n2 by simp
  ultimately show ?thesis
    by (auto split: option.splits sum.splits prod.splits)
qed

lemmas exec_simps = exec_Terminal exec_Terminal_class exec_Mem_fn exec_Nonterminal exec_Both exec_Either
  exec_Require exec_Optional exec_Multiple

section \<open>The formatter writes the compact text\<close>

lemma depth_elem: "t \<in> set ts \<Longrightarrow> f t \<le> foldr max (map f ts) (0::nat)"
  by (induction ts) auto

lemma print_Array_loop_compact:
  "list_all2 (\<lambda>v x. pr v = Some x) vs xs \<Longrightarrow>
   print_Array_loop pr False False tabs at0 vs
     = Some (if at0 then commas xs else concat (map (\<lambda>y. '', '' @ y) xs))"
proof (induction vs xs arbitrary: at0 rule: list_all2_induct)
  case Nil
  then show ?case by simp
next
  case (Cons v x vs xs)
  then show ?case by simp
qed

lemma print_Object_loop_compact:
  "list_all2 (\<lambda>e kt. fst e = fst kt \<and> pr (snd e) = Some (f (snd kt))) es kts \<Longrightarrow>
   \<forall>e\<in>set es. fst e \<noteq> k0 \<Longrightarrow>
   print_Object_loop pr False False tabs k0 es
     = Some (concat (map (\<lambda>kt. '', '' @ std_quoted (fst kt) @ '': '' @ f (snd kt)) kts))"
proof (induction es kts rule: list_all2_induct)
  case Nil
  then show ?case by simp
next
  case (Cons e kt es kts)
  then show ?case by simp
qed

lemma print_Object_loop_compact_first:
  assumes "list_all2 (\<lambda>e kt. fst e = fst kt \<and> pr (snd e) = Some (f (snd kt))) (e # es) kts"
    and "\<forall>e'\<in>set es. fst e' \<noteq> fst e"
  shows "print_Object_loop pr False False tabs (fst e) (e # es)
     = Some (commas (map (\<lambda>kt. std_quoted (fst kt) @ '': '' @ f (snd kt)) kts))"
proof -
  from assms(1) obtain kt kts' where kts: "kts = kt # kts'" and hd: "fst e = fst kt" "pr (snd e) = Some (f (snd kt))"
    and tl: "list_all2 (\<lambda>e kt. fst e = fst kt \<and> pr (snd e) = Some (f (snd kt))) es kts'"
    by (auto simp: list_all2_Cons1)
  from print_Object_loop_compact [OF tl assms(2)] hd kts show ?thesis
    by (simp add: comp_def)
qed

lemma sorted_keys_distinct_head:
  "sorted_wrt (<) (map fst (kt # kts)) \<Longrightarrow> \<forall>e\<in>set kts. fst e \<noteq> fst (kt :: string \<times> 'b)"
  by auto

lemma Formatter_print_compact:
  "holds_in A h v t \<Longrightarrow> regular numok t \<Longrightarrow>
   Formatter_print put h (depth t + k) \<lparr>flags = 0, level = l\<rparr> v = Some (compact put t)"
proof (induction t arbitrary: v k l)
  case JNull
  then show ?case by (cases v) simp_all
next
  case (JBoolean b)
  then show ?case by (cases v) auto
next
  case (JNumber x)
  then show ?case by (cases v) simp_all
next
  case (JString s)
  then show ?case by (cases v) simp_all
next
  case (JArray ts)
  from JArray.prems(1) obtain a where v: "v = VArray a" and hs: "list_all2 (holds_in A h) (arrays h a) ts"
    by (cases v) simp_all
  let ?n = "foldr max (map depth ts) 0 + k"
  let ?pr = "Formatter_print put h ?n \<lparr>flags = 0, level = l + 1\<rparr>"
  have "?pr w = Some (compact put t)" if "t \<in> set ts" and "holds_in A h w t" for w t
  proof -
    from that(1) have "depth t \<le> foldr max (map depth ts) 0"
      by (rule depth_elem)
    then obtain k' where "?n = depth t + k'"
      by (metis add.assoc le_Suc_ex)
    moreover from that(1) JArray.prems(2) have "regular numok t"
      by (simp add: list_all_iff)
    ultimately show ?thesis
      using JArray.IH [OF that(1) that(2)] by simp
  qed
  with hs have "list_all2 (\<lambda>v x. ?pr v = Some x) (arrays h a) (map (compact put) ts)"
    by (simp add: list_all2_map2 list_all2_conv_all_nth)
  then show ?case
    using v by (simp add: Formatter_print_Array_def print_Array_loop_compact Formatter_multiline_def)
next
  case (JObject kts)
  from JObject.prems(1) obtain a where v: "v = VObject a"
    and hs: "list_all2 (\<lambda>e kt. fst e = fst kt \<and> holds_in A h (snd e) (snd kt)) (objects h a) kts"
    by (cases v) simp_all
  let ?n = "foldr max (map (\<lambda>kt. depth (snd kt)) kts) 0 + k"
  let ?pr = "Formatter_print put h ?n \<lparr>flags = 0, level = l + 1\<rparr>"
  have "?pr w = Some (compact put (snd kt))" if "kt \<in> set kts" and "holds_in A h w (snd kt)" for w kt
  proof -
    from that(1) have "depth (snd kt) \<le> foldr max (map (\<lambda>kt. depth (snd kt)) kts) 0"
      by (rule depth_elem)
    then obtain k' where "?n = depth (snd kt) + k'"
      by (metis add.assoc le_Suc_ex)
    moreover from that(1) JObject.prems(2) have "regular numok (snd kt)"
      by (simp add: list_all_iff)
    moreover have "snd kt \<in> Basic_BNFs.snds kt"
      by (cases kt) simp
    ultimately show ?thesis
      using JObject.IH [OF that(1) _ that(2)] by simp
  qed
  with hs have all: "list_all2 (\<lambda>e kt. fst e = fst kt \<and> ?pr (snd e) = Some (compact put (snd kt))) (objects h a) kts"
    by (simp add: list_all2_conv_all_nth)
  from JObject.prems(2) obtain kt kts' where kts: "kts = kt # kts'"
    by (cases kts) simp_all
  with hs obtain e es where es: "objects h a = e # es"
    by (auto simp: list_all2_Cons2)
  from hs have keys: "map fst (objects h a) = map fst kts"
    by (induction rule: list_all2_induct) simp_all
  with JObject.prems(2) have "sorted_wrt (<) (map fst (objects h a))"
    by simp
  with es have dist: "\<forall>e'\<in>set es. fst e' \<noteq> fst e"
    by auto
  from all es have all': "list_all2 (\<lambda>e kt. fst e = fst kt \<and> ?pr (snd e) = Some (compact put (snd kt))) (e # es) kts"
    by simp
  have "print_Object_loop ?pr False False (replicate (unat (l + 1)) (CHR 0x09)) (fst e) (e # es)
     = Some (commas (map (\<lambda>kt. std_quoted (fst kt) @ '': '' @ compact put (snd kt)) kts))"
    using all' dist by (rule print_Object_loop_compact_first)
  then show ?case
    using v es by (simp add: Formatter_print_Object_def Formatter_multiline_def)
qed

section \<open>The grammar rules on the compact text\<close>

subsection \<open>Rules for composing results\<close>

lemma exec_Nonterminal_eq:
  "Parser_rule id' = Inr r \<Longrightarrow> exec stod (Nonterminal id') p = exec stod r p"
  by (simp add: exec_Nonterminal)

lemma exec_Both_I:
  "exec stod first p = Some (Inr True, p1) \<Longrightarrow> exec stod second p1 = out \<Longrightarrow> exec stod (Both first second) p = out"
  by (simp add: exec_Both)

lemma exec_Both_F:
  "exec stod first p = Some (Inr False, p1) \<Longrightarrow> exec stod (Both first second) p = Some (Inr False, p1)"
  by (simp add: exec_Both)

lemma exec_Either_I1:
  "exec stod first p = Some (Inr True, p1) \<Longrightarrow> exec stod (Either first second) p = Some (Inr True, p1)"
  by (simp add: exec_Either)

lemma exec_Either_I2:
  "exec stod first p = Some (Inr False, p1) \<Longrightarrow> exec stod second p1 = out \<Longrightarrow> exec stod (Either first second) p = out"
  by (simp add: exec_Either)

lemma exec_Require_I:
  "exec stod r p = Some (Inr True, p1) \<Longrightarrow> exec stod (Require r) p = Some (Inr True, p1)"
  by (simp add: exec_Require)

lemma exec_Multiple_step:
  "istream_bool (inp p) \<Longrightarrow> exec stod r p = Some (Inr True, p1) \<Longrightarrow> exec stod (Multiple r) p1 = out \<Longrightarrow>
   exec stod (Multiple r) p = out"
  by (subst exec_Multiple) simp

lemma exec_Multiple_stop:
  "istream_bool (inp p) \<Longrightarrow> exec stod r p = Some (Inr False, p1) \<Longrightarrow>
   exec stod (Multiple r) p = Some (Inr True, p1)"
  by (subst exec_Multiple) simp

lemmas exec_rule = Parser_rule_simps [THEN exec_Nonterminal_eq, unfolded grammar_defs foldl.simps]

lemmas sym_simps = exec_Terminal exec_Terminal_class exec_Mem_fn exec_Both exec_Either exec_Require exec_Optional
  Parser_read_Cons Parser_read_class_Cons ord_eq_iff istream_bool_def

lemma stopper_simps:
  "stopper c \<Longrightarrow> \<not> Parser_space (ord c)"
  "stopper c \<Longrightarrow> \<not> Parser_letter (ord c)"
  "stopper c \<Longrightarrow> \<not> Parser_digit (ord c)"
  by (auto simp: stopper_def Parser_space_def Parser_letter_def Parser_digit_def ord_def)

lemma whitespace_none:
  "\<not> Parser_space (ord c) \<Longrightarrow>
   exec stod (Nonterminal ''whitespace'') (St b l r ns vs (c # cs) h) = Some (Inr True, St b l r ns vs (c # cs) h)"
  by (simp add: exec_rule exec_Multiple sym_simps)

lemma whitespace_space:
  "\<not> Parser_space (ord c) \<Longrightarrow>
   exec stod (Nonterminal ''whitespace'') (St b l r ns vs (CHR '' '' # c # cs) h)
     = Some (Inr True, St (b @ '' '') l r ns vs (c # cs) h)"
  by (simp add: exec_rule exec_Multiple sym_simps Parser_space_def)

subsection \<open>Strings\<close>

lemma printable_Cons: "printable (c # s) \<longleftrightarrow> (0x20 \<le> ord c \<and> ord c < 0x7f) \<and> printable s"
  by (simp add: printable_def)

lemma printable_not_newline: "0x20 \<le> ord c \<Longrightarrow> c \<noteq> CHR 0x0A \<and> c \<noteq> CHR 0x0D"
  by (auto simp: ord_def)

lemma string_content_plain:
  assumes "0x20 \<le> ord c" "ord c < 0x7f" "c \<noteq> CHR 0x22" "c \<noteq> CHR 0x5C"
  shows "exec stod (Nonterminal ''string_content'') (St b l r ns vs (c # cs) h)
     = Some (Inr True, St (b @ [c]) l r ns vs cs h)"
  using assms printable_not_newline [of c]
  by (simp add: exec_rule sym_simps Parser_strchar_def)

lemma string_content_quote:
  "exec stod (Nonterminal ''string_content'') (St b l r ns vs (CHR 0x5C # CHR 0x22 # cs) h)
     = Some (Inr True, St (b @ [CHR 0x5C, CHR 0x22]) l r ns vs cs h)"
  by (simp add: exec_rule sym_simps)

lemma string_content_backslash:
  "exec stod (Nonterminal ''string_content'') (St b l r ns vs (CHR 0x5C # CHR 0x5C # cs) h)
     = Some (Inr True, St (b @ [CHR 0x5C, CHR 0x5C]) l r ns vs cs h)"
  by (simp add: exec_rule sym_simps)

lemma string_content_end:
  "exec stod (Nonterminal ''string_content'') (St b l r ns vs (CHR 0x22 # cs) h)
     = Some (Inr False, St b l r ns vs (CHR 0x22 # cs) h)"
  by (simp add: exec_rule sym_simps Parser_strchar_def ord_def)

lemma string_content_loop:
  "printable s \<Longrightarrow>
   exec stod (Multiple (Nonterminal ''string_content'')) (St b l r ns vs (escaped s @ CHR 0x22 # rest) h)
     = Some (Inr True, St (b @ escaped s) l r ns vs (CHR 0x22 # rest) h)"
proof (induction s arbitrary: b)
  case Nil
  show ?case
    by (rule exec_Multiple_stop) (simp_all add: escaped_def istream_bool_def string_content_end)
next
  case (Cons c s)
  from Cons.prems have c: "0x20 \<le> ord c" "ord c < 0x7f" and s: "printable s"
    by (simp_all add: printable_Cons)
  have step: "exec stod (Nonterminal ''string_content'') (St b l r ns vs (escaped (c # s) @ CHR 0x22 # rest) h)
      = Some (Inr True, St (b @ escaped [c]) l r ns vs (escaped s @ CHR 0x22 # rest) h)"
  proof (cases "c = CHR 0x22 \<or> c = CHR 0x5C")
    case True
    then show ?thesis
      by (auto simp: escaped_def string_content_quote string_content_backslash)
  next
    case False
    with c show ?thesis
      by (simp add: escaped_def string_content_plain)
  qed
  have "exec stod (Multiple (Nonterminal ''string_content'')) (St b l r ns vs (escaped (c # s) @ CHR 0x22 # rest) h)
      = Some (Inr True, St ((b @ escaped [c]) @ escaped s) l r ns vs (CHR 0x22 # rest) h)"
    by (rule exec_Multiple_step [OF _ step Cons.IH [OF s]]) (simp add: istream_bool_def)
  then show ?case
    by (simp add: escaped_def)
qed

lemma unescape_escaped: "unescape (escaped s) = Inr s"
  by (induction s) (simp_all add: escaped_def push_back_to_def)

lemma std_quoted_escaped: "std_quoted s = CHR 0x22 # escaped s @ [CHR 0x22]"
  by (simp add: std_quoted_def escaped_def)

lemma compileString_quoted:
  "Parser_compileString (St (std_quoted s) l r ns vs cs h) = (Inr True, St (std_quoted s) l (VString s) ns vs cs h)"
  by (simp add: Parser_compileString_def std_quoted_escaped nth_append unescape_escaped)

lemma string_rule:
  assumes "printable s"
  shows "exec stod (Nonterminal ''string'') (St b l r ns vs (std_quoted s @ rest) h)
     = Some (Inr True, St (std_quoted s) l (VString s) ns vs rest h)"
proof -
  have loop: "exec stod (Multiple (Nonterminal ''string_content'')) (St [CHR 0x22] l r ns vs (escaped s @ CHR 0x22 # rest) h)
     = Some (Inr True, St ([CHR 0x22] @ escaped s) l r ns vs (CHR 0x22 # rest) h)"
    using assms by (rule string_content_loop)
  show ?thesis
    by (simp add: exec_rule sym_simps std_quoted_escaped loop Parser_beginToken_def)
       (simp add: compileString_quoted [unfolded std_quoted_escaped, simplified])
qed

subsection \<open>White space, symbols and the alternatives of a value\<close>

lemma whitespace_spaces:
  "spaces sp \<Longrightarrow> \<not> Parser_space (ord c) \<Longrightarrow>
   exec stod (Nonterminal ''whitespace'') (St b l r ns vs (sp @ c # cs) h)
     = Some (Inr True, St (b @ sp) l r ns vs (c # cs) h)"
  by (auto simp: spaces_def whitespace_none whitespace_space)

lemma object_fails:
  "c \<noteq> CHR ''{'' \<Longrightarrow>
   exec stod (Nonterminal ''object'') (St b l r ns vs (c # cs) h) = Some (Inr False, St b l r ns vs (c # cs) h)"
  by (simp add: exec_rule sym_simps)

lemma array_fails:
  "c \<noteq> CHR ''['' \<Longrightarrow>
   exec stod (Nonterminal ''array'') (St b l r ns vs (c # cs) h) = Some (Inr False, St b l r ns vs (c # cs) h)"
  by (simp add: exec_rule sym_simps)

lemma string_fails:
  "c \<noteq> CHR 0x22 \<Longrightarrow>
   exec stod (Nonterminal ''string'') (St b l r ns vs (c # cs) h) = Some (Inr False, St [] l r ns vs (c # cs) h)"
  by (simp add: exec_rule sym_simps Parser_beginToken_def)

lemma number_fails:
  "c \<noteq> CHR ''-'' \<Longrightarrow> c \<noteq> CHR ''0'' \<Longrightarrow> \<not> Parser_n0digit (ord c) \<Longrightarrow>
   exec stod (Nonterminal ''number'') (St b l r ns vs (c # cs) h) = Some (Inr False, St [] l r ns vs (c # cs) h)"
  by (simp add: exec_rule sym_simps Parser_beginToken_def)

lemmas eval_simps = exec_rule exec_Multiple sym_simps Parser_letter_def Parser_digit_def Parser_n0digit_def
  Parser_space_def ord_def Parser_beginToken_def Parser_compileSymbol_def

lemma symbol_null:
  "stopper c \<Longrightarrow>
   exec stod (Nonterminal ''symbol'') (St b l r ns vs (''null'' @ c # cs) h)
     = Some (Inr True, St ''null'' l VNull ns vs (c # cs) h)"
  unfolding stopper_def by (elim disjE) (simp_all add: eval_simps)

lemma symbol_true:
  "stopper c \<Longrightarrow>
   exec stod (Nonterminal ''symbol'') (St b l r ns vs (''true'' @ c # cs) h)
     = Some (Inr True, St ''true'' l (VBoolean True) ns vs (c # cs) h)"
  unfolding stopper_def by (elim disjE) (simp_all add: eval_simps)

lemma symbol_false:
  "stopper c \<Longrightarrow>
   exec stod (Nonterminal ''symbol'') (St b l r ns vs (''false'' @ c # cs) h)
     = Some (Inr True, St ''false'' l (VBoolean False) ns vs (c # cs) h)"
  unfolding stopper_def by (elim disjE) (simp_all add: eval_simps)

text \<open>The value rule, given what one of its alternatives does.\<close>

lemma value_by_symbol:
  assumes sp: "spaces sp" and c: "stopper c"
    and first: "\<not> Parser_space (ord c0)" "c0 \<noteq> CHR ''{''" "c0 \<noteq> CHR ''[''" "c0 \<noteq> CHR 0x22"
      "c0 \<noteq> CHR ''-''" "c0 \<noteq> CHR ''0''" "\<not> Parser_n0digit (ord c0)"
    and sym: "exec stod (Nonterminal ''symbol'') (St [] l r ns vs (c0 # tok @ c # cs) h)
        = Some (Inr True, St b' l v ns vs (c # cs) h)"
  shows "exec stod (Nonterminal ''value'') (St b l r ns vs (sp @ (c0 # tok) @ c # cs) h)
     = Some (Inr True, St b' l v ns vs (c # cs) h)"
proof -
  have ws1: "exec stod (Nonterminal ''whitespace'') (St b l r ns vs (sp @ (c0 # tok) @ c # cs) h)
     = Some (Inr True, St (b @ sp) l r ns vs (c0 # tok @ c # cs) h)"
    using whitespace_spaces [OF sp first(1)] by simp
  have ws2: "exec stod (Nonterminal ''whitespace'') (St b' l v ns vs (c # cs) h)
     = Some (Inr True, St b' l v ns vs (c # cs) h)"
    using c by (simp add: whitespace_none stopper_simps)
  have alts: "exec stod (Either (Either (Either (Either (Nonterminal ''object'') (Nonterminal ''array''))
        (Nonterminal ''string'')) (Nonterminal ''number'')) (Nonterminal ''symbol''))
      (St (b @ sp) l r ns vs (c0 # tok @ c # cs) h) = Some (Inr True, St b' l v ns vs (c # cs) h)"
    using first sym by (simp add: exec_Either object_fails array_fails string_fails number_fails)
  show ?thesis
    unfolding exec_rule
    by (rule exec_Both_I [OF exec_Both_I [OF ws1 alts] ws2])
qed

subsection \<open>Stores and properties\<close>

lemma extends_refl: "extends h h"
  by (simp add: extends_def)

lemma extends_trans: "extends h h1 \<Longrightarrow> extends h1 h2 \<Longrightarrow> extends h h2"
  by (auto simp: extends_def)

lemma holds_in_scalar_simps:
  "holds_in A h v JNull \<longleftrightarrow> v = VNull"
  "holds_in A h v (JBoolean b) \<longleftrightarrow> v = VBoolean b"
  "holds_in A h v (JNumber x) \<longleftrightarrow> v = VNumber x"
  "holds_in A h v (JString s) \<longleftrightarrow> v = VString s"
  by (cases v; auto)+

lemma holds_in_mono: "holds_in A h v t \<Longrightarrow> A \<subseteq> B \<Longrightarrow> holds_in B h v t"
proof (induction t arbitrary: v)
  case (JArray ts)
  then obtain a where v: "v = VArray a" and a: "a \<in> A" and hs: "list_all2 (holds_in A h) (arrays h a) ts"
    by (cases v) simp_all
  from hs have "list_all2 (holds_in B h) (arrays h a) ts"
    using JArray.IH JArray.prems(2) by (auto simp: list_all2_conv_all_nth)
  with v a JArray.prems(2) show ?case by auto
next
  case (JObject kts)
  then obtain a where v: "v = VObject a" and a: "a \<in> A"
    and hs: "list_all2 (\<lambda>e kt. fst e = fst kt \<and> holds_in A h (snd e) (snd kt)) (objects h a) kts"
    by (cases v) simp_all
  have "holds_in B h w (snd kt)" if "kt \<in> set kts" "holds_in A h w (snd kt)" for w kt
    using JObject.IH [OF that(1) _ that(2) JObject.prems(2)] by (cases kt) simp
  with hs have "list_all2 (\<lambda>e kt. fst e = fst kt \<and> holds_in B h (snd e) (snd kt)) (objects h a) kts"
    by (auto simp: list_all2_conv_all_nth)
  with v a JObject.prems(2) show ?case by auto
qed (simp_all add: holds_in_scalar_simps)

lemma holds_in_frame:
  "holds_in A h v t \<Longrightarrow> \<forall>x\<in>A. arrays h' x = arrays h x \<and> objects h' x = objects h x \<Longrightarrow> holds_in A h' v t"
proof (induction t arbitrary: v)
  case (JArray ts)
  then obtain a where v: "v = VArray a" and a: "a \<in> A" and hs: "list_all2 (holds_in A h) (arrays h a) ts"
    by (cases v) simp_all
  from hs have "list_all2 (holds_in A h') (arrays h a) ts"
    using JArray.IH JArray.prems(2) by (auto simp: list_all2_conv_all_nth)
  with v a JArray.prems(2) show ?case by auto
next
  case (JObject kts)
  then obtain a where v: "v = VObject a" and a: "a \<in> A"
    and hs: "list_all2 (\<lambda>e kt. fst e = fst kt \<and> holds_in A h (snd e) (snd kt)) (objects h a) kts"
    by (cases v) simp_all
  have "holds_in A h' w (snd kt)" if "kt \<in> set kts" "holds_in A h w (snd kt)" for w kt
    using JObject.IH [OF that(1) _ that(2) JObject.prems(2)] by (cases kt) simp
  with hs have "list_all2 (\<lambda>e kt. fst e = fst kt \<and> holds_in A h' (snd e) (snd kt)) (objects h a) kts"
    by (auto simp: list_all2_conv_all_nth)
  with v a JObject.prems(2) show ?case by auto
qed (simp_all add: holds_in_scalar_simps)

lemma map_append_new:
  "\<forall>e\<in>set es. fst e < k \<Longrightarrow> map_store k v (map_subscript k d es) = es @ [(k, v)]"
  by (induction es) auto

lemma std_quoted_first: "std_quoted s @ rest = CHR 0x22 # escaped s @ CHR 0x22 # rest"
  by (simp add: std_quoted_escaped)

lemma name_rule:
  assumes k: "printable k" and sp: "spaces sp"
  shows "exec stod (Nonterminal ''name'') (St b l r ns vs (sp @ std_quoted k @ CHR '':'' # rest) h)
     = Some (Inr True, St (std_quoted k) l (VString k) (k # ns) vs (CHR '':'' # rest) h)"
proof -
  have ws1: "exec stod (Nonterminal ''whitespace'') (St b l r ns vs (sp @ std_quoted k @ CHR '':'' # rest) h)
     = Some (Inr True, St (b @ sp) l r ns vs (std_quoted k @ CHR '':'' # rest) h)"
    using whitespace_spaces [OF sp, of "CHR 0x22"] by (simp add: std_quoted_first Parser_space_def ord_def)
  have str: "exec stod (Nonterminal ''string'') (St (b @ sp) l r ns vs (std_quoted k @ CHR '':'' # rest) h)
     = Some (Inr True, St (std_quoted k) l (VString k) ns vs (CHR '':'' # rest) h)"
    using k by (rule string_rule)
  have ws2: "exec stod (Nonterminal ''whitespace'') (St (std_quoted k) l (VString k) ns vs (CHR '':'' # rest) h)
     = Some (Inr True, St (std_quoted k) l (VString k) ns vs (CHR '':'' # rest) h)"
    by (simp add: whitespace_none Parser_space_def ord_def)
  have cn: "exec stod (Mem_fn compileName) (St (std_quoted k) l (VString k) ns vs (CHR '':'' # rest) h)
     = Some (Inr True, St (std_quoted k) l (VString k) (k # ns) vs (CHR '':'' # rest) h)"
    by (simp add: exec_Mem_fn Parser_compileName_def Parser_pushName_def)
  show ?thesis
    unfolding exec_rule
    by (rule exec_Both_I [OF exec_Both_I [OF exec_Both_I [OF ws1 str] ws2] cn])
qed

lemma property_rule:
  assumes rv: "reads_value stod put t" and k: "printable k" and sp: "spaces sp" and c: "stopper c"
    and a: "a < fresh h" and es: "objects h a = es" and lt: "\<forall>e\<in>set es. fst e < k"
  shows "\<exists>b' v h'. exec stod (Nonterminal ''property'')
            (St b l r ns (VObject a # vs) (sp @ std_quoted k @ '': '' @ compact put t @ c # cs) h)
          = Some (Inr True, St b' l v ns (VObject a # vs) (c # cs) (h'\<lparr>objects := (objects h')(a := es @ [(k, v)])\<rparr>))
        \<and> holds_in {fresh h ..< fresh h'} h' v t \<and> extends h h'"
proof -
  let ?vs = "VObject a # vs"
  have nm: "exec stod (Nonterminal ''name'') (St b l r ns ?vs (sp @ std_quoted k @ '': '' @ compact put t @ c # cs) h)
     = Some (Inr True, St (std_quoted k) l (VString k) (k # ns) ?vs (CHR '':'' # '' '' @ compact put t @ c # cs) h)"
    using name_rule [OF k sp] by simp
  have colon: "exec stod (Require (Terminal CHR '':'')) (St (std_quoted k) l (VString k) (k # ns) ?vs (CHR '':'' # '' '' @ compact put t @ c # cs) h)
     = Some (Inr True, St (std_quoted k @ '':'') l (VString k) (k # ns) ?vs ('' '' @ compact put t @ c # cs) h)"
    by (simp add: sym_simps)
  from rv c obtain b' v h' where
    val: "exec stod (Nonterminal ''value'') (St (std_quoted k @ '':'') l (VString k) (k # ns) ?vs ('' '' @ compact put t @ c # cs) h)
       = Some (Inr True, St b' l v (k # ns) ?vs (c # cs) h')"
    and hv: "holds_in {fresh h ..< fresh h'} h' v t" and ext: "extends h h'"
    unfolding reads_value_def spaces_def by blast
  from ext a es have "objects h' a = es"
    by (simp add: extends_def)
  then have cp: "exec stod (Mem_fn compileProperty) (St b' l v (k # ns) ?vs (c # cs) h')
     = Some (Inr True, St b' l v ns ?vs (c # cs) (h'\<lparr>objects := (objects h')(a := es @ [(k, v)])\<rparr>))"
    using lt by (simp add: exec_Mem_fn Parser_compileProperty_def Parser_value_def Parser_popName_def
        Value_copy_def map_append_new)
  have "exec stod (Nonterminal ''property'')
            (St b l r ns ?vs (sp @ std_quoted k @ '': '' @ compact put t @ c # cs) h)
          = Some (Inr True, St b' l v ns ?vs (c # cs) (h'\<lparr>objects := (objects h')(a := es @ [(k, v)])\<rparr>))"
    unfolding exec_rule
    by (rule exec_Both_I [OF exec_Both_I [OF exec_Both_I [OF nm colon] exec_Require_I [OF val]] cp])
  with hv ext show ?thesis
    by blast
qed

subsection \<open>Property lists\<close>

lemma compact_first_stopper_after:
  "\<exists>c cs. stopper c \<and> concat (map (\<lambda>kt. '', '' @ f kt) kts) @ CHR ''}'' # rest = c # cs"
  by (cases kts) (auto simp: stopper_def)

lemma property_loop:
  assumes "\<forall>kt\<in>set kts. reads_value stod put (snd kt) \<and> printable (fst kt)"
    and "sorted_wrt (<) (map fst es @ map fst kts)"
    and "a < fresh h" and "objects h a = es"
  shows "\<exists>b' r' h'. exec stod (Multiple (Both (Terminal CHR '','') (Require (Nonterminal ''property''))))
           (St b l r ns (VObject a # vs)
              (concat (map (\<lambda>kt. '', '' @ std_quoted (fst kt) @ '': '' @ compact put (snd kt)) kts) @ CHR ''}'' # rest) h)
         = Some (Inr True, St b' l r' ns (VObject a # vs) (CHR ''}'' # rest) h')
       \<and> (\<exists>es'. objects h' a = es @ es'
             \<and> list_all2 (\<lambda>e kt. fst e = fst kt \<and> holds_in {fresh h ..< fresh h'} h' (snd e) (snd kt)) es' kts)
       \<and> fresh h \<le> fresh h'
       \<and> (\<forall>x<fresh h. arrays h' x = arrays h x \<and> (x \<noteq> a \<longrightarrow> objects h' x = objects h x))"
  using assms
proof (induction kts arbitrary: b r h es)
  case Nil
  have "exec stod (Both (Terminal CHR '','') (Require (Nonterminal ''property'')))
      (St b l r ns (VObject a # vs) (CHR ''}'' # rest) h) = Some (Inr False, St b l r ns (VObject a # vs) (CHR ''}'' # rest) h)"
    by (simp add: sym_simps)
  then have "exec stod (Multiple (Both (Terminal CHR '','') (Require (Nonterminal ''property''))))
      (St b l r ns (VObject a # vs) (CHR ''}'' # rest) h) = Some (Inr True, St b l r ns (VObject a # vs) (CHR ''}'' # rest) h)"
    by (intro exec_Multiple_stop) (simp_all add: istream_bool_def)
  with Nil show ?case
    by auto
next
  case (Cons kt kts)
  let ?vs = "VObject a # vs"
  let ?f = "\<lambda>kt. '', '' @ std_quoted (fst kt) @ '': '' @ compact put (snd kt)"
  obtain c cs where c: "stopper c" and tail: "concat (map ?f kts) @ CHR ''}'' # rest = c # cs"
    using compact_first_stopper_after [of "\<lambda>kt. std_quoted (fst kt) @ '': '' @ compact put (snd kt)" kts rest]
    by auto
  from Cons.prems(1) have rv: "reads_value stod put (snd kt)" and pk: "printable (fst kt)"
    by simp_all
  from Cons.prems(2) have lt: "\<forall>e\<in>set es. fst e < fst kt"
    by (auto simp: sorted_wrt_append)
  have comma: "exec stod (Terminal CHR '','') (St b l r ns ?vs (concat (map ?f (kt # kts)) @ CHR ''}'' # rest) h)
     = Some (Inr True, St (b @ '','') l r ns ?vs ('' '' @ std_quoted (fst kt) @ '': '' @ compact put (snd kt) @ c # cs) h)"
    using tail by (simp add: sym_simps)
  have sp1: "spaces '' ''"
    by (simp add: spaces_def)
  from property_rule [OF rv pk sp1 c Cons.prems(3) Cons.prems(4) lt]
  obtain b1 v h1 where
    prp: "exec stod (Nonterminal ''property'')
            (St (b @ '','') l r ns ?vs ('' '' @ std_quoted (fst kt) @ '': '' @ compact put (snd kt) @ c # cs) h)
          = Some (Inr True, St b1 l v ns ?vs (c # cs) (h1\<lparr>objects := (objects h1)(a := es @ [(fst kt, v)])\<rparr>))"
    and hv: "holds_in {fresh h ..< fresh h1} h1 v (snd kt)" and ext: "extends h h1"
    by blast
  let ?h1 = "h1\<lparr>objects := (objects h1)(a := es @ [(fst kt, v)])\<rparr>"
  have step: "exec stod (Both (Terminal CHR '','') (Require (Nonterminal ''property'')))
      (St b l r ns ?vs (concat (map ?f (kt # kts)) @ CHR ''}'' # rest) h) = Some (Inr True, St b1 l v ns ?vs (c # cs) ?h1)"
    by (rule exec_Both_I [OF comma exec_Require_I [OF prp]])
  have a1: "a < fresh ?h1"
    using ext Cons.prems(3) by (simp add: extends_def)
  have sorted1: "sorted_wrt (<) (map fst (es @ [(fst kt, v)]) @ map fst kts)"
    using Cons.prems(2) by simp
  from Cons.IH [of "es @ [(fst kt, v)]" ?h1 b1 v] Cons.prems(1) sorted1 a1
  obtain b' r' h' es' where
    loop: "exec stod (Multiple (Both (Terminal CHR '','') (Require (Nonterminal ''property''))))
           (St b1 l v ns ?vs (concat (map ?f kts) @ CHR ''}'' # rest) ?h1)
         = Some (Inr True, St b' l r' ns ?vs (CHR ''}'' # rest) h')"
    and obj: "objects h' a = (es @ [(fst kt, v)]) @ es'"
    and rest: "list_all2 (\<lambda>e kt. fst e = fst kt \<and> holds_in {fresh ?h1 ..< fresh h'} h' (snd e) (snd kt)) es' kts"
    and fr: "fresh ?h1 \<le> fresh h'"
    and same: "\<forall>x<fresh ?h1. arrays h' x = arrays ?h1 x \<and> (x \<noteq> a \<longrightarrow> objects h' x = objects ?h1 x)"
    by auto
  have whole: "exec stod (Multiple (Both (Terminal CHR '','') (Require (Nonterminal ''property''))))
           (St b l r ns ?vs (concat (map ?f (kt # kts)) @ CHR ''}'' # rest) h)
         = Some (Inr True, St b' l r' ns ?vs (CHR ''}'' # rest) h')"
    using loop tail by (intro exec_Multiple_step [OF _ step]) (simp_all add: istream_bool_def)
  have le: "fresh h \<le> fresh h1" "fresh h1 \<le> fresh h'"
    using ext fr by (simp_all add: extends_def)
  have "holds_in {fresh h ..< fresh h1} h' v (snd kt)"
  proof (rule holds_in_frame [OF hv])
    show "\<forall>x\<in>{fresh h ..< fresh h1}. arrays h' x = arrays h1 x \<and> objects h' x = objects h1 x"
      using same Cons.prems(3) by auto
  qed
  then have hv': "holds_in {fresh h ..< fresh h'} h' v (snd kt)"
    using le by (auto intro: holds_in_mono)
  have rest': "list_all2 (\<lambda>e kt. fst e = fst kt \<and> holds_in {fresh h ..< fresh h'} h' (snd e) (snd kt)) es' kts"
  proof (rule list_all2_mono [OF rest])
    fix e kt'
    assume "fst e = fst kt' \<and> holds_in {fresh ?h1 ..< fresh h'} h' (snd e) (snd kt')"
    then show "fst e = fst kt' \<and> holds_in {fresh h ..< fresh h'} h' (snd e) (snd kt')"
      using le by (auto intro: holds_in_mono)
  qed
  have unchanged: "\<forall>x<fresh h. arrays h' x = arrays h x \<and> (x \<noteq> a \<longrightarrow> objects h' x = objects h x)"
    using same ext le by (auto simp: extends_def)
  from obj hv' rest' have "objects h' a = es @ ((fst kt, v) # es')
      \<and> list_all2 (\<lambda>e kt. fst e = fst kt \<and> holds_in {fresh h ..< fresh h'} h' (snd e) (snd kt)) ((fst kt, v) # es') (kt # kts)"
    by simp
  with whole le unchanged show ?case
    by (intro exI conjI) (assumption | simp)+
qed

subsection \<open>Objects\<close>

lemma object_rule:
  assumes rvs: "\<forall>kt\<in>set kts. reads_value stod put (snd kt) \<and> printable (fst kt)"
    and ne: "kts \<noteq> []" and sorted: "sorted_wrt (<) (map fst kts)"
  shows "\<exists>b' h'. exec stod (Nonterminal ''object'') (St b l r ns vs (compact put (JObject kts) @ rest) h)
           = Some (Inr True, St b' l (VObject (fresh h)) ns vs rest h')
         \<and> holds_in {fresh h ..< fresh h'} h' (VObject (fresh h)) (JObject kts) \<and> extends h h'"
proof -
  from ne obtain kt kts' where kts: "kts = kt # kts'"
    by (cases kts) auto
  let ?a = "fresh h"
  let ?vs = "VObject ?a # vs"
  let ?f = "\<lambda>kt. '', '' @ std_quoted (fst kt) @ '': '' @ compact put (snd kt)"
  let ?h0 = "h\<lparr>objects := (objects h)(?a := []), fresh := Suc ?a\<rparr>"
  let ?tail = "concat (map ?f kts') @ CHR ''}'' # rest"
  obtain c cs where c: "stopper c" and tail: "?tail = c # cs"
    using compact_first_stopper_after [of "\<lambda>kt. std_quoted (fst kt) @ '': '' @ compact put (snd kt)" kts' rest]
    by auto
  have shape: "compact put (JObject kts) @ rest
      = CHR ''{'' # std_quoted (fst kt) @ '': '' @ compact put (snd kt) @ ?tail"
    using kts by (simp add: comp_def)
  have brace: "exec stod (Terminal CHR ''{'') (St b l r ns vs (compact put (JObject kts) @ rest) h)
      = Some (Inr True, St (b @ ''{'') l r ns vs (std_quoted (fst kt) @ '': '' @ compact put (snd kt) @ ?tail) h)"
    unfolding shape by (simp add: sym_simps)
  have push: "exec stod (Mem_fn pushObject) (St (b @ ''{'') l r ns vs (std_quoted (fst kt) @ '': '' @ compact put (snd kt) @ ?tail) h)
      = Some (Inr True, St (b @ ''{'') l r ns ?vs ([] @ std_quoted (fst kt) @ '': '' @ compact put (snd kt) @ c # cs) ?h0)"
    using tail by (simp add: exec_Mem_fn Parser_pushObject_def Value_Object_def Parser_pushValue_def)
  from rvs kts have rv: "reads_value stod put (snd kt)" and pk: "printable (fst kt)"
    by simp_all
  have sp0: "spaces []"
    by (simp add: spaces_def)
  have a0: "?a < fresh ?h0" and es0: "objects ?h0 ?a = []" and lt0: "\<forall>e\<in>set []. fst e < fst kt"
    by simp_all
  from property_rule [OF rv pk sp0 c a0 es0 lt0]
  obtain b1 v h1 where
    first: "exec stod (Nonterminal ''property'')
            (St (b @ ''{'') l r ns ?vs ([] @ std_quoted (fst kt) @ '': '' @ compact put (snd kt) @ c # cs) ?h0)
          = Some (Inr True, St b1 l v ns ?vs (c # cs) (h1\<lparr>objects := (objects h1)(?a := [] @ [(fst kt, v)])\<rparr>))"
    and hv: "holds_in {fresh ?h0 ..< fresh h1} h1 v (snd kt)" and ext: "extends ?h0 h1"
    by blast
  let ?h1 = "h1\<lparr>objects := (objects h1)(?a := [(fst kt, v)])\<rparr>"
  have a1: "?a < fresh ?h1" and es1: "objects ?h1 ?a = [(fst kt, v)]"
    using ext by (simp_all add: extends_def)
  from rvs kts have rvs': "\<forall>kt\<in>set kts'. reads_value stod put (snd kt) \<and> printable (fst kt)"
    by simp
  from sorted kts have sorted': "sorted_wrt (<) (map fst [(fst kt, v)] @ map fst kts')"
    by simp
  from property_loop [OF rvs' sorted' a1 es1]
  obtain b2 r2 h2 es' where
    loop: "exec stod (Multiple (Both (Terminal CHR '','') (Require (Nonterminal ''property''))))
           (St b1 l v ns ?vs (?tail) ?h1) = Some (Inr True, St b2 l r2 ns ?vs (CHR ''}'' # rest) h2)"
    and obj: "objects h2 ?a = [(fst kt, v)] @ es'"
    and rest: "list_all2 (\<lambda>e kt. fst e = fst kt \<and> holds_in {fresh ?h1 ..< fresh h2} h2 (snd e) (snd kt)) es' kts'"
    and fr: "fresh ?h1 \<le> fresh h2"
    and same: "\<forall>x<fresh ?h1. arrays h2 x = arrays ?h1 x \<and> (x \<noteq> ?a \<longrightarrow> objects h2 x = objects ?h1 x)"
    by blast
  have props: "exec stod (Both (Nonterminal ''property'')
        (Require (Multiple (Both (Terminal CHR '','') (Require (Nonterminal ''property''))))))
      (St (b @ ''{'') l r ns ?vs ([] @ std_quoted (fst kt) @ '': '' @ compact put (snd kt) @ c # cs) ?h0)
      = Some (Inr True, St b2 l r2 ns ?vs (CHR ''}'' # rest) h2)"
    using first loop tail by (intro exec_Both_I exec_Require_I) simp_all
  have cc: "exec stod (Mem_fn compileCompound) (St b2 l r2 ns ?vs (CHR ''}'' # rest) h2)
      = Some (Inr True, St b2 l (VObject ?a) ns ?vs (CHR ''}'' # rest) h2)"
    by (simp add: exec_Mem_fn Parser_compileCompound_def Parser_value_def Value_copy_def)
  have fc: "exec stod (Mem_fn finishCompound) (St b2 l (VObject ?a) ns ?vs (CHR ''}'' # rest) h2)
      = Some (Inr True, St b2 l (VObject ?a) ns vs (CHR ''}'' # rest) h2)"
    by (simp add: exec_Mem_fn Parser_finishCompound_def Parser_popValue_def)
  have plist: "exec stod (Nonterminal ''property_list'')
      (St (b @ ''{'') l r ns vs (std_quoted (fst kt) @ '': '' @ compact put (snd kt) @ ?tail) h)
      = Some (Inr True, St b2 l (VObject ?a) ns vs (CHR ''}'' # rest) h2)"
    unfolding exec_rule
    by (rule exec_Both_I [OF exec_Both_I [OF exec_Both_I [OF push props] cc] fc])
  have close: "exec stod (Require (Terminal CHR ''}'')) (St b2 l (VObject ?a) ns vs (CHR ''}'' # rest) h2)
      = Some (Inr True, St (b2 @ ''}'') l (VObject ?a) ns vs rest h2)"
    by (simp add: sym_simps)
  have whole: "exec stod (Nonterminal ''object'') (St b l r ns vs (compact put (JObject kts) @ rest) h)
      = Some (Inr True, St (b2 @ ''}'') l (VObject ?a) ns vs rest h2)"
    unfolding exec_rule
    by (rule exec_Both_I [OF exec_Both_I [OF brace exec_Require_I [OF exec_Either_I1 [OF plist]]] close])
  have le: "Suc ?a \<le> fresh h1" "fresh h1 \<le> fresh h2"
    using ext fr by (simp_all add: extends_def)
  have "holds_in {fresh ?h0 ..< fresh h1} h2 v (snd kt)"
  proof (rule holds_in_frame [OF hv])
    show "\<forall>x\<in>{fresh ?h0 ..< fresh h1}. arrays h2 x = arrays h1 x \<and> objects h2 x = objects h1 x"
      using same by auto
  qed
  then have hv': "holds_in {?a ..< fresh h2} h2 v (snd kt)"
    using le by (auto intro: holds_in_mono)
  have rest': "list_all2 (\<lambda>e kt. fst e = fst kt \<and> holds_in {?a ..< fresh h2} h2 (snd e) (snd kt)) es' kts'"
  proof (rule list_all2_mono [OF rest])
    fix e kt'
    assume "fst e = fst kt' \<and> holds_in {fresh ?h1 ..< fresh h2} h2 (snd e) (snd kt')"
    then show "fst e = fst kt' \<and> holds_in {?a ..< fresh h2} h2 (snd e) (snd kt')"
      using le by (auto intro: holds_in_mono)
  qed
  have holds: "holds_in {?a ..< fresh h2} h2 (VObject ?a) (JObject kts)"
    using obj hv' rest' kts le by simp
  have "extends h h2"
    using same ext le by (auto simp: extends_def)
  with whole holds show ?thesis
    by blast
qed

lemma reads_value_object:
  assumes rvs: "\<forall>kt\<in>set kts. reads_value stod put (snd kt) \<and> printable (fst kt)"
    and ne: "kts \<noteq> []" and sorted: "sorted_wrt (<) (map fst kts)"
  shows "reads_value stod put (JObject kts)"
  unfolding reads_value_def
proof (intro allI impI)
  fix b l r ns vs sp c cs and h :: "'a heap"
  assume sp: "spaces sp" and c: "stopper c"
  let ?text = "compact put (JObject kts)"
  obtain tx where tx: "?text = CHR ''{'' # tx"
    by simp
  have ws1: "exec stod (Nonterminal ''whitespace'') (St b l r ns vs (sp @ ?text @ c # cs) h)
     = Some (Inr True, St (b @ sp) l r ns vs (?text @ c # cs) h)"
    unfolding tx using whitespace_spaces [OF sp, of "CHR ''{''"] by (simp add: Parser_space_def ord_def)
  from object_rule [OF rvs ne sorted]
  obtain b' h' where
    obj: "exec stod (Nonterminal ''object'') (St (b @ sp) l r ns vs (?text @ c # cs) h)
           = Some (Inr True, St b' l (VObject (fresh h)) ns vs (c # cs) h')"
    and holds: "holds_in {fresh h ..< fresh h'} h' (VObject (fresh h)) (JObject kts)" and ext: "extends h h'"
    by blast
  have ws2: "exec stod (Nonterminal ''whitespace'') (St b' l (VObject (fresh h)) ns vs (c # cs) h')
     = Some (Inr True, St b' l (VObject (fresh h)) ns vs (c # cs) h')"
    using c by (simp add: whitespace_none stopper_simps)
  have "exec stod (Nonterminal ''value'') (St b l r ns vs (sp @ ?text @ c # cs) h)
     = Some (Inr True, St b' l (VObject (fresh h)) ns vs (c # cs) h')"
    unfolding exec_rule
    by (rule exec_Both_I [OF exec_Both_I [OF ws1 exec_Either_I1 [OF exec_Either_I1 [OF exec_Either_I1 [OF exec_Either_I1 [OF obj]]]]] ws2])
  with holds ext
  show "\<exists>b' v h'. exec stod (Nonterminal ''value'') (St b l r ns vs (sp @ ?text @ c # cs) h)
             = Some (Inr True, St b' l v ns vs (c # cs) h')
           \<and> holds_in {fresh h ..< fresh h'} h' v (JObject kts) \<and> extends h h'"
    by blast
qed

subsection \<open>Arrays\<close>

lemma element_rule:
  assumes rv: "reads_value stod put t" and sp: "spaces sp" and c: "stopper c"
    and a: "a < fresh h" and xs: "arrays h a = xs"
  shows "\<exists>b' v h'. exec stod (Nonterminal ''array_element'')
            (St b l r ns (VArray a # vs) (sp @ compact put t @ c # cs) h)
          = Some (Inr True, St b' l v ns (VArray a # vs) (c # cs) (h'\<lparr>arrays := (arrays h')(a := xs @ [v])\<rparr>))
        \<and> holds_in {fresh h ..< fresh h'} h' v t \<and> extends h h'"
proof -
  let ?vs = "VArray a # vs"
  from rv sp c obtain b' v h' where
    val: "exec stod (Nonterminal ''value'') (St b l r ns ?vs (sp @ compact put t @ c # cs) h)
       = Some (Inr True, St b' l v ns ?vs (c # cs) h')"
    and hv: "holds_in {fresh h ..< fresh h'} h' v t" and ext: "extends h h'"
    unfolding reads_value_def by blast
  from ext a xs have "arrays h' a = xs"
    by (simp add: extends_def)
  then have ce: "exec stod (Mem_fn compileArrayElement) (St b' l v ns ?vs (c # cs) h')
     = Some (Inr True, St b' l v ns ?vs (c # cs) (h'\<lparr>arrays := (arrays h')(a := xs @ [v])\<rparr>))"
    by (simp add: exec_Mem_fn Parser_compileArrayElement_def Parser_value_def Value_copy_def)
  have "exec stod (Nonterminal ''array_element'') (St b l r ns ?vs (sp @ compact put t @ c # cs) h)
          = Some (Inr True, St b' l v ns ?vs (c # cs) (h'\<lparr>arrays := (arrays h')(a := xs @ [v])\<rparr>))"
    unfolding exec_rule
    by (rule exec_Both_I [OF val ce])
  with hv ext show ?thesis
    by blast
qed

lemma elements_first_stopper_after:
  "\<exists>c cs. stopper c \<and> concat (map (\<lambda>t. '', '' @ f t) ts) @ CHR '']'' # rest = c # cs"
  by (cases ts) (auto simp: stopper_def)

lemma element_loop:
  assumes "\<forall>t\<in>set ts. reads_value stod put t"
    and "a < fresh h" and "arrays h a = xs"
  shows "\<exists>b' r' h'. exec stod (Multiple (Both (Terminal CHR '','') (Require (Nonterminal ''array_element''))))
           (St b l r ns (VArray a # vs) (concat (map (\<lambda>t. '', '' @ compact put t) ts) @ CHR '']'' # rest) h)
         = Some (Inr True, St b' l r' ns (VArray a # vs) (CHR '']'' # rest) h')
       \<and> (\<exists>xs'. arrays h' a = xs @ xs' \<and> list_all2 (holds_in {fresh h ..< fresh h'} h') xs' ts)
       \<and> fresh h \<le> fresh h'
       \<and> (\<forall>x<fresh h. objects h' x = objects h x \<and> (x \<noteq> a \<longrightarrow> arrays h' x = arrays h x))"
  using assms
proof (induction ts arbitrary: b r h xs)
  case Nil
  have "exec stod (Both (Terminal CHR '','') (Require (Nonterminal ''array_element'')))
      (St b l r ns (VArray a # vs) (CHR '']'' # rest) h) = Some (Inr False, St b l r ns (VArray a # vs) (CHR '']'' # rest) h)"
    by (simp add: sym_simps)
  then have "exec stod (Multiple (Both (Terminal CHR '','') (Require (Nonterminal ''array_element''))))
      (St b l r ns (VArray a # vs) (CHR '']'' # rest) h) = Some (Inr True, St b l r ns (VArray a # vs) (CHR '']'' # rest) h)"
    by (intro exec_Multiple_stop) (simp_all add: istream_bool_def)
  with Nil show ?case
    by auto
next
  case (Cons t ts)
  let ?vs = "VArray a # vs"
  let ?f = "\<lambda>t. '', '' @ compact put t"
  obtain c cs where c: "stopper c" and tail: "concat (map ?f ts) @ CHR '']'' # rest = c # cs"
    using elements_first_stopper_after [of "compact put" ts rest] by auto
  from Cons.prems(1) have rv: "reads_value stod put t"
    by simp
  have comma: "exec stod (Terminal CHR '','') (St b l r ns ?vs (concat (map ?f (t # ts)) @ CHR '']'' # rest) h)
     = Some (Inr True, St (b @ '','') l r ns ?vs ('' '' @ compact put t @ c # cs) h)"
    using tail by (simp add: sym_simps)
  have sp1: "spaces '' ''"
    by (simp add: spaces_def)
  from element_rule [OF rv sp1 c Cons.prems(2) Cons.prems(3)]
  obtain b1 v h1 where
    el: "exec stod (Nonterminal ''array_element'') (St (b @ '','') l r ns ?vs ('' '' @ compact put t @ c # cs) h)
          = Some (Inr True, St b1 l v ns ?vs (c # cs) (h1\<lparr>arrays := (arrays h1)(a := xs @ [v])\<rparr>))"
    and hv: "holds_in {fresh h ..< fresh h1} h1 v t" and ext: "extends h h1"
    by blast
  let ?h1 = "h1\<lparr>arrays := (arrays h1)(a := xs @ [v])\<rparr>"
  have step: "exec stod (Both (Terminal CHR '','') (Require (Nonterminal ''array_element'')))
      (St b l r ns ?vs (concat (map ?f (t # ts)) @ CHR '']'' # rest) h) = Some (Inr True, St b1 l v ns ?vs (c # cs) ?h1)"
    by (rule exec_Both_I [OF comma exec_Require_I [OF el]])
  have a1: "a < fresh ?h1" and xs1: "arrays ?h1 a = xs @ [v]"
    using ext Cons.prems(2) by (simp_all add: extends_def)
  from Cons.prems(1) have rvs': "\<forall>t\<in>set ts. reads_value stod put t"
    by simp
  from Cons.IH [OF rvs' a1 xs1]
  obtain b' r' h' xs' where
    loop: "exec stod (Multiple (Both (Terminal CHR '','') (Require (Nonterminal ''array_element''))))
           (St b1 l v ns ?vs (concat (map ?f ts) @ CHR '']'' # rest) ?h1)
         = Some (Inr True, St b' l r' ns ?vs (CHR '']'' # rest) h')"
    and arr: "arrays h' a = (xs @ [v]) @ xs'"
    and rest: "list_all2 (holds_in {fresh ?h1 ..< fresh h'} h') xs' ts"
    and fr: "fresh ?h1 \<le> fresh h'"
    and same: "\<forall>x<fresh ?h1. objects h' x = objects ?h1 x \<and> (x \<noteq> a \<longrightarrow> arrays h' x = arrays ?h1 x)"
    by blast
  have whole: "exec stod (Multiple (Both (Terminal CHR '','') (Require (Nonterminal ''array_element''))))
           (St b l r ns ?vs (concat (map ?f (t # ts)) @ CHR '']'' # rest) h)
         = Some (Inr True, St b' l r' ns ?vs (CHR '']'' # rest) h')"
    using loop tail by (intro exec_Multiple_step [OF _ step]) (simp_all add: istream_bool_def)
  have le: "fresh h \<le> fresh h1" "fresh h1 \<le> fresh h'"
    using ext fr by (simp_all add: extends_def)
  have "holds_in {fresh h ..< fresh h1} h' v t"
  proof (rule holds_in_frame [OF hv])
    show "\<forall>x\<in>{fresh h ..< fresh h1}. arrays h' x = arrays h1 x \<and> objects h' x = objects h1 x"
      using same Cons.prems(2) by auto
  qed
  then have hv': "holds_in {fresh h ..< fresh h'} h' v t"
    using le by (auto intro: holds_in_mono)
  have rest': "list_all2 (holds_in {fresh h ..< fresh h'} h') xs' ts"
  proof (rule list_all2_mono [OF rest])
    fix w t'
    assume "holds_in {fresh ?h1 ..< fresh h'} h' w t'"
    then show "holds_in {fresh h ..< fresh h'} h' w t'"
      using le by (auto intro: holds_in_mono)
  qed
  have unchanged: "\<forall>x<fresh h. objects h' x = objects h x \<and> (x \<noteq> a \<longrightarrow> arrays h' x = arrays h x)"
    using same ext le by (auto simp: extends_def)
  from arr hv' rest' have "arrays h' a = xs @ (v # xs') \<and> list_all2 (holds_in {fresh h ..< fresh h'} h') (v # xs') (t # ts)"
    by simp
  with whole le unchanged show ?case
    by (intro exI conjI) (assumption | simp)+
qed

lemma array_rule:
  assumes rvs: "\<forall>t\<in>set ts. reads_value stod put t" and ne: "ts \<noteq> []"
  shows "\<exists>b' h'. exec stod (Nonterminal ''array'') (St b l r ns vs (compact put (JArray ts) @ rest) h)
           = Some (Inr True, St b' l (VArray (fresh h)) ns vs rest h')
         \<and> holds_in {fresh h ..< fresh h'} h' (VArray (fresh h)) (JArray ts) \<and> extends h h'"
proof -
  from ne obtain t ts' where ts: "ts = t # ts'"
    by (cases ts) auto
  let ?a = "fresh h"
  let ?vs = "VArray ?a # vs"
  let ?f = "\<lambda>t. '', '' @ compact put t"
  let ?h0 = "h\<lparr>arrays := (arrays h)(?a := []), fresh := Suc ?a\<rparr>"
  let ?tail = "concat (map ?f ts') @ CHR '']'' # rest"
  obtain c cs where c: "stopper c" and tail: "?tail = c # cs"
    using elements_first_stopper_after [of "compact put" ts' rest] by auto
  have shape: "compact put (JArray ts) @ rest = CHR ''['' # compact put t @ ?tail"
    using ts by (simp add: comp_def)
  have bracket: "exec stod (Terminal CHR ''['') (St b l r ns vs (compact put (JArray ts) @ rest) h)
      = Some (Inr True, St (b @ ''['') l r ns vs (compact put t @ ?tail) h)"
    unfolding shape by (simp add: sym_simps)
  have push: "exec stod (Mem_fn pushArray) (St (b @ ''['') l r ns vs (compact put t @ ?tail) h)
      = Some (Inr True, St (b @ ''['') l r ns ?vs ([] @ compact put t @ c # cs) ?h0)"
    using tail by (simp add: exec_Mem_fn Parser_pushArray_def Value_Array_def Parser_pushValue_def)
  from rvs ts have rv: "reads_value stod put t"
    by simp
  have sp0: "spaces []"
    by (simp add: spaces_def)
  have a0: "?a < fresh ?h0" and xs0: "arrays ?h0 ?a = []"
    by simp_all
  from element_rule [OF rv sp0 c a0 xs0]
  obtain b1 v h1 where
    first: "exec stod (Nonterminal ''array_element'') (St (b @ ''['') l r ns ?vs ([] @ compact put t @ c # cs) ?h0)
          = Some (Inr True, St b1 l v ns ?vs (c # cs) (h1\<lparr>arrays := (arrays h1)(?a := [] @ [v])\<rparr>))"
    and hv: "holds_in {fresh ?h0 ..< fresh h1} h1 v t" and ext: "extends ?h0 h1"
    by blast
  let ?h1 = "h1\<lparr>arrays := (arrays h1)(?a := [v])\<rparr>"
  have a1: "?a < fresh ?h1" and xs1: "arrays ?h1 ?a = [v]"
    using ext by (simp_all add: extends_def)
  from rvs ts have rvs': "\<forall>t\<in>set ts'. reads_value stod put t"
    by simp
  from element_loop [OF rvs' a1 xs1]
  obtain b2 r2 h2 xs' where
    loop: "exec stod (Multiple (Both (Terminal CHR '','') (Require (Nonterminal ''array_element''))))
           (St b1 l v ns ?vs (?tail) ?h1) = Some (Inr True, St b2 l r2 ns ?vs (CHR '']'' # rest) h2)"
    and arr: "arrays h2 ?a = [v] @ xs'"
    and rest: "list_all2 (holds_in {fresh ?h1 ..< fresh h2} h2) xs' ts'"
    and fr: "fresh ?h1 \<le> fresh h2"
    and same: "\<forall>x<fresh ?h1. objects h2 x = objects ?h1 x \<and> (x \<noteq> ?a \<longrightarrow> arrays h2 x = arrays ?h1 x)"
    by blast
  have elems: "exec stod (Both (Nonterminal ''array_element'')
        (Require (Multiple (Both (Terminal CHR '','') (Require (Nonterminal ''array_element''))))))
      (St (b @ ''['') l r ns ?vs ([] @ compact put t @ c # cs) ?h0)
      = Some (Inr True, St b2 l r2 ns ?vs (CHR '']'' # rest) h2)"
    using first loop tail by (intro exec_Both_I exec_Require_I) simp_all
  have cc: "exec stod (Mem_fn compileCompound) (St b2 l r2 ns ?vs (CHR '']'' # rest) h2)
      = Some (Inr True, St b2 l (VArray ?a) ns ?vs (CHR '']'' # rest) h2)"
    by (simp add: exec_Mem_fn Parser_compileCompound_def Parser_value_def Value_copy_def)
  have fc: "exec stod (Mem_fn finishCompound) (St b2 l (VArray ?a) ns ?vs (CHR '']'' # rest) h2)
      = Some (Inr True, St b2 l (VArray ?a) ns vs (CHR '']'' # rest) h2)"
    by (simp add: exec_Mem_fn Parser_finishCompound_def Parser_popValue_def)
  have elist: "exec stod (Nonterminal ''array_element_list'')
      (St (b @ ''['') l r ns vs (compact put t @ ?tail) h)
      = Some (Inr True, St b2 l (VArray ?a) ns vs (CHR '']'' # rest) h2)"
    unfolding exec_rule
    by (rule exec_Both_I [OF exec_Both_I [OF exec_Both_I [OF push elems] cc] fc])
  have close: "exec stod (Require (Terminal CHR '']'')) (St b2 l (VArray ?a) ns vs (CHR '']'' # rest) h2)
      = Some (Inr True, St (b2 @ '']'') l (VArray ?a) ns vs rest h2)"
    by (simp add: sym_simps)
  have whole: "exec stod (Nonterminal ''array'') (St b l r ns vs (compact put (JArray ts) @ rest) h)
      = Some (Inr True, St (b2 @ '']'') l (VArray ?a) ns vs rest h2)"
    unfolding exec_rule
    by (rule exec_Both_I [OF exec_Both_I [OF bracket exec_Require_I [OF exec_Either_I1 [OF elist]]] close])
  have le: "Suc ?a \<le> fresh h1" "fresh h1 \<le> fresh h2"
    using ext fr by (simp_all add: extends_def)
  have "holds_in {fresh ?h0 ..< fresh h1} h2 v t"
  proof (rule holds_in_frame [OF hv])
    show "\<forall>x\<in>{fresh ?h0 ..< fresh h1}. arrays h2 x = arrays h1 x \<and> objects h2 x = objects h1 x"
      using same by auto
  qed
  then have hv': "holds_in {?a ..< fresh h2} h2 v t"
    using le by (auto intro: holds_in_mono)
  have rest': "list_all2 (holds_in {?a ..< fresh h2} h2) xs' ts'"
  proof (rule list_all2_mono [OF rest])
    fix w t'
    assume "holds_in {fresh ?h1 ..< fresh h2} h2 w t'"
    then show "holds_in {?a ..< fresh h2} h2 w t'"
      using le by (auto intro: holds_in_mono)
  qed
  have holds: "holds_in {?a ..< fresh h2} h2 (VArray ?a) (JArray ts)"
    using arr hv' rest' ts le by simp
  have "extends h h2"
    using same ext le by (auto simp: extends_def)
  with whole holds show ?thesis
    by blast
qed

lemma reads_value_array:
  assumes rvs: "\<forall>t\<in>set ts. reads_value stod put t" and ne: "ts \<noteq> []"
  shows "reads_value stod put (JArray ts)"
  unfolding reads_value_def
proof (intro allI impI)
  fix b l r ns vs sp c cs and h :: "'a heap"
  assume sp: "spaces sp" and c: "stopper c"
  let ?text = "compact put (JArray ts)"
  obtain tx where tx: "?text = CHR ''['' # tx"
    by simp
  have ws1: "exec stod (Nonterminal ''whitespace'') (St b l r ns vs (sp @ ?text @ c # cs) h)
     = Some (Inr True, St (b @ sp) l r ns vs (?text @ c # cs) h)"
    unfolding tx using whitespace_spaces [OF sp, of "CHR ''[''"] by (simp add: Parser_space_def ord_def)
  have nobj: "exec stod (Nonterminal ''object'') (St (b @ sp) l r ns vs (?text @ c # cs) h)
     = Some (Inr False, St (b @ sp) l r ns vs (?text @ c # cs) h)"
    unfolding tx by (simp add: object_fails)
  from array_rule [OF rvs ne]
  obtain b' h' where
    arr: "exec stod (Nonterminal ''array'') (St (b @ sp) l r ns vs (?text @ c # cs) h)
           = Some (Inr True, St b' l (VArray (fresh h)) ns vs (c # cs) h')"
    and holds: "holds_in {fresh h ..< fresh h'} h' (VArray (fresh h)) (JArray ts)" and ext: "extends h h'"
    by blast
  have ws2: "exec stod (Nonterminal ''whitespace'') (St b' l (VArray (fresh h)) ns vs (c # cs) h')
     = Some (Inr True, St b' l (VArray (fresh h)) ns vs (c # cs) h')"
    using c by (simp add: whitespace_none stopper_simps)
  have "exec stod (Nonterminal ''value'') (St b l r ns vs (sp @ ?text @ c # cs) h)
     = Some (Inr True, St b' l (VArray (fresh h)) ns vs (c # cs) h')"
    unfolding exec_rule
    by (rule exec_Both_I [OF exec_Both_I [OF ws1 exec_Either_I1 [OF exec_Either_I1 [OF exec_Either_I1 [OF exec_Either_I2 [OF nobj arr]]]]] ws2])
  with holds ext
  show "\<exists>b' v h'. exec stod (Nonterminal ''value'') (St b l r ns vs (sp @ ?text @ c # cs) h)
             = Some (Inr True, St b' l v ns vs (c # cs) h')
           \<and> holds_in {fresh h ..< fresh h'} h' v (JArray ts) \<and> extends h h'"
    by blast
qed

subsection \<open>Numbers\<close>

lemma digit_facts:
  assumes "Parser_digit (ord d)"
  shows "d \<noteq> CHR 0x0A" "d \<noteq> CHR 0x0D" "d \<noteq> CHR ''-''" "d \<noteq> CHR ''+''" "d \<noteq> CHR ''.''"
    "d \<noteq> CHR ''E''" "d \<noteq> CHR ''e''" "d \<noteq> CHR ''{''" "d \<noteq> CHR ''[''" "d \<noteq> CHR 0x22"
    "\<not> Parser_space (ord d)"
  using assms by (auto simp: Parser_digit_def Parser_space_def ord_def)

lemma n0digit_facts:
  assumes "Parser_n0digit (ord d)"
  shows "Parser_digit (ord d)" "d \<noteq> CHR ''0''"
  using assms by (auto simp: Parser_digit_def Parser_n0digit_def ord_def)

lemma stopper_facts:
  assumes "stopper c"
  shows "c \<noteq> CHR ''.''" "c \<noteq> CHR ''E''" "c \<noteq> CHR ''e''" "\<not> Parser_digit (ord c)"
  using assms by (auto simp: stopper_def Parser_digit_def ord_def)

lemma digit_rule:
  "Parser_digit (ord d) \<Longrightarrow>
   exec stod (Nonterminal ''digit'') (St b l r ns vs (d # cs) h) = Some (Inr True, St (b @ [d]) l r ns vs cs h)"
  using digit_facts(1,2) [of d] by (simp add: exec_rule sym_simps)

lemma digit_rule_fails:
  "\<not> Parser_digit (ord c) \<Longrightarrow>
   exec stod (Nonterminal ''digit'') (St b l r ns vs (c # cs) h) = Some (Inr False, St b l r ns vs (c # cs) h)"
  by (simp add: exec_rule sym_simps)

lemma digit_loop:
  "digits ds \<Longrightarrow> \<not> Parser_digit (ord c) \<Longrightarrow>
   exec stod (Multiple (Nonterminal ''digit'')) (St b l r ns vs (ds @ c # cs) h)
     = Some (Inr True, St (b @ ds) l r ns vs (c # cs) h)"
proof (induction ds arbitrary: b)
  case Nil
  then show ?case
    by (intro exec_Multiple_stop) (simp_all add: istream_bool_def digit_rule_fails)
next
  case (Cons d ds)
  then have d: "Parser_digit (ord d)" and ds: "digits ds"
    by (simp_all add: digits_def)
  have one: "exec stod (Nonterminal ''digit'') (St b l r ns vs ((d # ds) @ c # cs) h)
     = Some (Inr True, St (b @ [d]) l r ns vs (ds @ c # cs) h)"
    using digit_rule [OF d] by simp
  have "exec stod (Multiple (Nonterminal ''digit'')) (St b l r ns vs ((d # ds) @ c # cs) h)
     = Some (Inr True, St ((b @ [d]) @ ds) l r ns vs (c # cs) h)"
    by (rule exec_Multiple_step [OF _ one Cons.IH [OF ds Cons.prems(2)]]) (simp add: istream_bool_def)
  then show ?case
    by simp
qed

lemma digits1_rule:
  assumes "Parser_digit (ord d)" "digits ds" "\<not> Parser_digit (ord c)"
  shows "exec stod (Both (Require (Nonterminal ''digit'')) (Require (Multiple (Nonterminal ''digit''))))
      (St b l r ns vs (d # ds @ c # cs) h) = Some (Inr True, St (b @ d # ds) l r ns vs (c # cs) h)"
proof -
  have one: "exec stod (Nonterminal ''digit'') (St b l r ns vs (d # ds @ c # cs) h)
     = Some (Inr True, St (b @ [d]) l r ns vs (ds @ c # cs) h)"
    using assms(1) by (rule digit_rule)
  have more: "exec stod (Multiple (Nonterminal ''digit'')) (St (b @ [d]) l r ns vs (ds @ c # cs) h)
     = Some (Inr True, St ((b @ [d]) @ ds) l r ns vs (c # cs) h)"
    using assms(2,3) by (rule digit_loop)
  have "exec stod (Both (Require (Nonterminal ''digit'')) (Require (Multiple (Nonterminal ''digit''))))
      (St b l r ns vs (d # ds @ c # cs) h) = Some (Inr True, St ((b @ [d]) @ ds) l r ns vs (c # cs) h)"
    by (rule exec_Both_I [OF exec_Require_I [OF one] exec_Require_I [OF more]])
  then show ?thesis
    by simp
qed

lemma digit_sequence_rule:
  assumes "int_part ip" "\<not> Parser_digit (ord c)"
  shows "exec stod (Nonterminal ''digit_sequence'') (St b l r ns vs (ip @ c # cs) h)
     = Some (Inr True, St (b @ ip) l r ns vs (c # cs) h)"
proof -
  from assms(1) consider "ip = ''0''" | d ds where "ip = d # ds" "Parser_n0digit (ord d)" "digits ds"
    by (auto simp: int_part_def)
  then show ?thesis
  proof cases
    case 1
    then show ?thesis
      by (simp add: exec_rule sym_simps)
  next
    case 2
    have zero: "exec stod (Terminal CHR ''0'') (St b l r ns vs (d # ds @ c # cs) h)
       = Some (Inr False, St b l r ns vs (d # ds @ c # cs) h)"
      using n0digit_facts [OF 2(2)] by (simp add: sym_simps)
    have nz: "exec stod (Nonterminal ''nonzero_digit'') (St b l r ns vs (d # ds @ c # cs) h)
       = Some (Inr True, St (b @ [d]) l r ns vs (ds @ c # cs) h)"
      using 2(2) digit_facts(1,2) [OF n0digit_facts(1) [OF 2(2)]] by (simp add: exec_rule sym_simps)
    have more: "exec stod (Multiple (Nonterminal ''digit'')) (St (b @ [d]) l r ns vs (ds @ c # cs) h)
       = Some (Inr True, St ((b @ [d]) @ ds) l r ns vs (c # cs) h)"
      using 2(3) assms(2) by (rule digit_loop)
    have nzs: "exec stod (Nonterminal ''nonzero_sequence'') (St b l r ns vs (d # ds @ c # cs) h)
       = Some (Inr True, St ((b @ [d]) @ ds) l r ns vs (c # cs) h)"
      unfolding exec_rule
      by (rule exec_Both_I [OF nz exec_Require_I [OF more]])
    have "exec stod (Nonterminal ''digit_sequence'') (St b l r ns vs (d # ds @ c # cs) h)
       = Some (Inr True, St ((b @ [d]) @ ds) l r ns vs (c # cs) h)"
      unfolding exec_rule
      by (rule exec_Either_I2 [OF zero nzs])
    with 2(1) show ?thesis
      by simp
  qed
qed

lemma fraction_rule:
  assumes "frac_part fr" "\<not> Parser_digit (ord c)" "c \<noteq> CHR ''.''"
  shows "exec stod (Require (Optional (Nonterminal ''fraction''))) (St b l r ns vs (fr @ c # cs) h)
     = Some (Inr True, St (b @ fr) l r ns vs (c # cs) h)"
proof -
  from assms(1) consider "fr = []" | d ds where "fr = CHR ''.'' # d # ds" "Parser_digit (ord d)" "digits ds"
    by (auto simp: frac_part_def)
  then show ?thesis
  proof cases
    case 1
    with assms(3) show ?thesis
      by (simp add: exec_rule sym_simps)
  next
    case 2
    have dot: "exec stod (Terminal CHR ''.'') (St b l r ns vs (CHR ''.'' # d # ds @ c # cs) h)
       = Some (Inr True, St (b @ ''.'') l r ns vs (d # ds @ c # cs) h)"
      by (simp add: sym_simps)
    have d1: "exec stod (Require (Nonterminal ''digit'')) (St (b @ ''.'') l r ns vs (d # ds @ c # cs) h)
       = Some (Inr True, St ((b @ ''.'') @ [d]) l r ns vs (ds @ c # cs) h)"
      by (intro exec_Require_I digit_rule 2(2))
    have dn: "exec stod (Require (Multiple (Nonterminal ''digit''))) (St ((b @ ''.'') @ [d]) l r ns vs (ds @ c # cs) h)
       = Some (Inr True, St (((b @ ''.'') @ [d]) @ ds) l r ns vs (c # cs) h)"
      by (intro exec_Require_I digit_loop 2(3) assms(2))
    have "exec stod (Nonterminal ''fraction'') (St b l r ns vs (CHR ''.'' # d # ds @ c # cs) h)
       = Some (Inr True, St (((b @ ''.'') @ [d]) @ ds) l r ns vs (c # cs) h)"
      unfolding exec_rule
      by (rule exec_Both_I [OF exec_Both_I [OF dot d1] dn])
    with 2(1) show ?thesis
      by (simp add: exec_Require exec_Optional)
  qed
qed

lemma exponent_rule:
  assumes "exp_part ex" "\<not> Parser_digit (ord c)" "c \<noteq> CHR ''E''" "c \<noteq> CHR ''e''"
  shows "exec stod (Require (Optional (Nonterminal ''exponent''))) (St b l r ns vs (ex @ c # cs) h)
     = Some (Inr True, St (b @ ex) l r ns vs (c # cs) h)"
proof -
  from assms(1) consider "ex = []"
    | e sg d ds where "ex = e # sg @ d # ds" "e = CHR ''E'' \<or> e = CHR ''e''" "sg = [] \<or> sg = ''+'' \<or> sg = ''-''"
        "Parser_digit (ord d)" "digits ds"
    by (auto simp: exp_part_def)
  then show ?thesis
  proof cases
    case 1
    with assms(3,4) show ?thesis
      by (simp add: exec_rule sym_simps)
  next
    case 2
    let ?rest = "d # ds @ c # cs"
    have mark: "exec stod (Either (Terminal CHR ''E'') (Terminal CHR ''e'')) (St b l r ns vs (e # sg @ ?rest) h)
       = Some (Inr True, St (b @ [e]) l r ns vs (sg @ ?rest) h)"
      using 2(2) by (elim disjE) (simp_all add: sym_simps)
    have sgn: "exec stod (Require (Optional (Either (Terminal CHR ''+'') (Terminal CHR ''-''))))
        (St (b @ [e]) l r ns vs (sg @ ?rest) h) = Some (Inr True, St ((b @ [e]) @ sg) l r ns vs ?rest h)"
      using 2(3) digit_facts(3,4) [OF 2(4)] by (elim disjE) (simp_all add: sym_simps)
    have d1: "exec stod (Require (Nonterminal ''digit'')) (St ((b @ [e]) @ sg) l r ns vs ?rest h)
       = Some (Inr True, St (((b @ [e]) @ sg) @ [d]) l r ns vs (ds @ c # cs) h)"
      by (intro exec_Require_I digit_rule 2(4))
    have dn: "exec stod (Require (Multiple (Nonterminal ''digit''))) (St (((b @ [e]) @ sg) @ [d]) l r ns vs (ds @ c # cs) h)
       = Some (Inr True, St ((((b @ [e]) @ sg) @ [d]) @ ds) l r ns vs (c # cs) h)"
      by (intro exec_Require_I digit_loop 2(5) assms(2))
    have "exec stod (Nonterminal ''exponent'') (St b l r ns vs (e # sg @ ?rest) h)
       = Some (Inr True, St ((((b @ [e]) @ sg) @ [d]) @ ds) l r ns vs (c # cs) h)"
      unfolding exec_rule
      by (rule exec_Both_I [OF exec_Both_I [OF exec_Both_I [OF mark sgn] d1] dn])
    with 2(1) show ?thesis
      by (simp add: exec_Require exec_Optional)
  qed
qed

lemma after_int_part:
  assumes "frac_part fr" "exp_part ex" "stopper c"
  shows "\<exists>c1 cs1. fr @ ex @ c # cs = c1 # cs1 \<and> \<not> Parser_digit (ord c1)"
proof (cases fr)
  case Nil
  show ?thesis
  proof (cases ex)
    case Nil
    with \<open>fr = []\<close> assms(3) show ?thesis
      by (simp add: stopper_facts)
  next
    case (Cons e ex')
    with assms(2) have "e = CHR ''E'' \<or> e = CHR ''e''"
      by (auto simp: exp_part_def)
    then have "\<not> Parser_digit (ord e)"
      by (elim disjE) (simp_all add: Parser_digit_def ord_def)
    with Cons \<open>fr = []\<close> show ?thesis
      by simp
  qed
next
  case (Cons f fr')
  with assms(1) have "f = CHR ''.''"
    by (auto simp: frac_part_def)
  then have "\<not> Parser_digit (ord f)"
    by (simp add: Parser_digit_def ord_def)
  with Cons show ?thesis
    by simp
qed

lemma after_frac_part:
  assumes "exp_part ex" "stopper c"
  shows "\<exists>c2 cs2. ex @ c # cs = c2 # cs2 \<and> \<not> Parser_digit (ord c2) \<and> c2 \<noteq> CHR ''.''"
proof (cases ex)
  case Nil
  with assms(2) show ?thesis
    by (simp add: stopper_facts)
next
  case (Cons e ex')
  with assms(1) have "e = CHR ''E'' \<or> e = CHR ''e''"
    by (auto simp: exp_part_def)
  then have "\<not> Parser_digit (ord e) \<and> e \<noteq> CHR ''.''"
    by (elim disjE) (simp_all add: Parser_digit_def ord_def)
  with Cons show ?thesis
    by simp
qed

lemma digit_zero: "Parser_digit (ord CHR ''0'')"
  by (simp add: Parser_digit_def ord_def)

lemma int_part_first:
  assumes "int_part ip"
  shows "\<exists>d ds. ip = d # ds \<and> Parser_digit (ord d)"
proof -
  from assms consider "ip = ''0''" | d ds where "ip = d # ds" "Parser_n0digit (ord d)"
    by (auto simp: int_part_def)
  then show ?thesis
  proof cases
    case 1
    then show ?thesis
      using digit_zero by simp
  next
    case 2
    then show ?thesis
      using n0digit_facts(1) [OF 2(2)] by simp
  qed
qed

lemma number_rule:
  assumes tok: "number_token tok" and c: "stopper c" and stod: "stod tok = stod_returns x"
  shows "exec stod (Nonterminal ''number'') (St b l r ns vs (tok @ c # cs) h)
     = Some (Inr True, St tok l (VNumber x) ns vs (c # cs) h)"
proof -
  from tok obtain sg ip fr ex where parts: "tok = sg @ ip @ fr @ ex" and sg: "sg = [] \<or> sg = ''-''"
    and ip: "int_part ip" and fr: "frac_part fr" and ex: "exp_part ex"
    by (auto simp: number_token_def)
  obtain c1 cs1 where e1: "fr @ ex @ c # cs = c1 # cs1" and c1: "\<not> Parser_digit (ord c1)"
    using after_int_part [OF fr ex c] by blast
  obtain c2 cs2 where e2: "ex @ c # cs = c2 # cs2" and c2: "\<not> Parser_digit (ord c2)" "c2 \<noteq> CHR ''.''"
    using after_frac_part [OF ex c] by blast
  obtain d ds where ipd: "ip = d # ds" and d: "Parser_digit (ord d)"
    using int_part_first [OF ip] by blast
  have bt: "exec stod (Mem_fn beginToken) (St b l r ns vs (tok @ c # cs) h)
     = Some (Inr True, St [] l r ns vs (sg @ ip @ c1 # cs1) h)"
    using parts e1 by (simp add: exec_Mem_fn Parser_beginToken_def)
  have e12: "c1 # cs1 = fr @ c2 # cs2"
    using e1 e2 by simp
  have ds0: "exec stod (Nonterminal ''digit_sequence'') (St bb l r ns vs (ip @ c1 # cs1) h)
     = Some (Inr True, St (bb @ ip) l r ns vs (fr @ c2 # cs2) h)" for bb
    unfolding e12 [symmetric] by (rule digit_sequence_rule [OF ip c1])
  have signed: "exec stod (Either (Both (Terminal CHR ''-'') (Require (Nonterminal ''digit_sequence'')))
        (Nonterminal ''digit_sequence'')) (St [] l r ns vs (sg @ ip @ c1 # cs1) h)
     = Some (Inr True, St (sg @ ip) l r ns vs (fr @ c2 # cs2) h)"
  proof (cases "sg = []")
    case True
    have "exec stod (Both (Terminal CHR ''-'') (Require (Nonterminal ''digit_sequence''))) (St [] l r ns vs (ip @ c1 # cs1) h)
       = Some (Inr False, St [] l r ns vs (ip @ c1 # cs1) h)"
      using ipd digit_facts(3) [OF d] by (simp add: sym_simps)
    from exec_Either_I2 [OF this ds0 [of "[]"]] True show ?thesis
      by simp
  next
    case False
    with sg have m: "sg = ''-''"
      by simp
    have minus: "exec stod (Terminal CHR ''-'') (St [] l r ns vs (''-'' @ ip @ c1 # cs1) h)
       = Some (Inr True, St ''-'' l r ns vs (ip @ c1 # cs1) h)"
      by (simp add: sym_simps)
    from exec_Either_I1 [OF exec_Both_I [OF minus exec_Require_I [OF ds0 [of "''-''"]]]] m show ?thesis
      by simp
  qed
  have frac: "exec stod (Require (Optional (Nonterminal ''fraction''))) (St (sg @ ip) l r ns vs (fr @ c2 # cs2) h)
     = Some (Inr True, St ((sg @ ip) @ fr) l r ns vs (ex @ c # cs) h)"
    unfolding e2 by (rule fraction_rule [OF fr c2])
  have expo: "exec stod (Require (Optional (Nonterminal ''exponent''))) (St ((sg @ ip) @ fr) l r ns vs (ex @ c # cs) h)
     = Some (Inr True, St (((sg @ ip) @ fr) @ ex) l r ns vs (c # cs) h)"
    by (rule exponent_rule [OF ex stopper_facts(4) [OF c] stopper_facts(2) [OF c] stopper_facts(3) [OF c]])
  have cn: "exec stod (Mem_fn compileNumber) (St (((sg @ ip) @ fr) @ ex) l r ns vs (c # cs) h)
     = Some (Inr True, St tok l (VNumber x) ns vs (c # cs) h)"
    using parts stod by (simp add: exec_Mem_fn Parser_compileNumber_def)
  show ?thesis
    unfolding exec_rule
    by (rule exec_Both_I [OF exec_Both_I [OF bt exec_Both_I [OF exec_Both_I [OF signed frac] expo]] cn])
qed

subsection \<open>Every regular tree is read back\<close>

lemma reads_value_null: "reads_value stod put JNull"
  unfolding reads_value_def
proof (intro allI impI)
  fix b l r ns vs sp c cs and h :: "'a heap"
  assume sp: "spaces sp" and c: "stopper c"
  have "exec stod (Nonterminal ''value'') (St b l r ns vs (sp @ (CHR ''n'' # ''ull'') @ c # cs) h)
     = Some (Inr True, St ''null'' l VNull ns vs (c # cs) h)"
    using symbol_null [OF c, of stod "[]" l r ns vs cs h]
    by (intro value_by_symbol [OF sp c]) (simp_all add: Parser_space_def Parser_n0digit_def ord_def)
  then show "\<exists>b' v h'. exec stod (Nonterminal ''value'') (St b l r ns vs (sp @ compact put JNull @ c # cs) h)
             = Some (Inr True, St b' l v ns vs (c # cs) h')
           \<and> holds_in {fresh h ..< fresh h'} h' v JNull \<and> extends h h'"
    by (intro exI [of _ "''null''"] exI [of _ VNull] exI [of _ h]) (simp add: extends_refl)
qed

lemma reads_value_boolean: "reads_value stod put (JBoolean x)"
  unfolding reads_value_def
proof (intro allI impI)
  fix b l r ns vs sp c cs and h :: "'a heap"
  assume sp: "spaces sp" and c: "stopper c"
  show "\<exists>b' v h'. exec stod (Nonterminal ''value'') (St b l r ns vs (sp @ compact put (JBoolean x) @ c # cs) h)
             = Some (Inr True, St b' l v ns vs (c # cs) h')
           \<and> holds_in {fresh h ..< fresh h'} h' v (JBoolean x) \<and> extends h h'"
  proof (cases x)
    case True
    have "exec stod (Nonterminal ''value'') (St b l r ns vs (sp @ (CHR ''t'' # ''rue'') @ c # cs) h)
       = Some (Inr True, St ''true'' l (VBoolean True) ns vs (c # cs) h)"
      using symbol_true [OF c, of stod "[]" l r ns vs cs h]
      by (intro value_by_symbol [OF sp c]) (simp_all add: Parser_space_def Parser_n0digit_def ord_def)
    with True show ?thesis
      by (intro exI [of _ "''true''"] exI [of _ "VBoolean True"] exI [of _ h]) (simp add: extends_refl)
  next
    case False
    have "exec stod (Nonterminal ''value'') (St b l r ns vs (sp @ (CHR ''f'' # ''alse'') @ c # cs) h)
       = Some (Inr True, St ''false'' l (VBoolean False) ns vs (c # cs) h)"
      using symbol_false [OF c, of stod "[]" l r ns vs cs h]
      by (intro value_by_symbol [OF sp c]) (simp_all add: Parser_space_def Parser_n0digit_def ord_def)
    with False show ?thesis
      by (intro exI [of _ "''false''"] exI [of _ "VBoolean False"] exI [of _ h]) (simp add: extends_refl)
  qed
qed

lemma reads_value_string:
  assumes s: "printable s"
  shows "reads_value stod put (JString s)"
  unfolding reads_value_def
proof (intro allI impI)
  fix b l r ns vs sp c cs and h :: "'a heap"
  assume sp: "spaces sp" and c: "stopper c"
  let ?text = "std_quoted s"
  obtain tx where tx: "?text = CHR 0x22 # tx"
    by (simp add: std_quoted_def)
  have ws1: "exec stod (Nonterminal ''whitespace'') (St b l r ns vs (sp @ ?text @ c # cs) h)
     = Some (Inr True, St (b @ sp) l r ns vs (?text @ c # cs) h)"
    unfolding tx using whitespace_spaces [OF sp, of "CHR 0x22"] by (simp add: Parser_space_def ord_def)
  have nobj: "exec stod (Nonterminal ''object'') (St (b @ sp) l r ns vs (?text @ c # cs) h)
     = Some (Inr False, St (b @ sp) l r ns vs (?text @ c # cs) h)"
    unfolding tx by (simp add: object_fails)
  have narr: "exec stod (Nonterminal ''array'') (St (b @ sp) l r ns vs (?text @ c # cs) h)
     = Some (Inr False, St (b @ sp) l r ns vs (?text @ c # cs) h)"
    unfolding tx by (simp add: array_fails)
  have str: "exec stod (Nonterminal ''string'') (St (b @ sp) l r ns vs (?text @ c # cs) h)
     = Some (Inr True, St ?text l (VString s) ns vs (c # cs) h)"
    using s by (rule string_rule)
  have ws2: "exec stod (Nonterminal ''whitespace'') (St ?text l (VString s) ns vs (c # cs) h)
     = Some (Inr True, St ?text l (VString s) ns vs (c # cs) h)"
    using c by (simp add: whitespace_none stopper_simps)
  have "exec stod (Nonterminal ''value'') (St b l r ns vs (sp @ ?text @ c # cs) h)
     = Some (Inr True, St ?text l (VString s) ns vs (c # cs) h)"
    unfolding exec_rule
    by (rule exec_Both_I [OF exec_Both_I [OF ws1 exec_Either_I1 [OF exec_Either_I1
          [OF exec_Either_I2 [OF exec_Either_I2 [OF nobj narr] str]]]] ws2])
  then show "\<exists>b' v h'. exec stod (Nonterminal ''value'') (St b l r ns vs (sp @ compact put (JString s) @ c # cs) h)
             = Some (Inr True, St b' l v ns vs (c # cs) h')
           \<and> holds_in {fresh h ..< fresh h'} h' v (JString s) \<and> extends h h'"
    by (intro exI [of _ ?text] exI [of _ "VString s"] exI [of _ h]) (simp add: extends_refl)
qed

lemma number_token_first:
  assumes "number_token tok"
  shows "\<exists>c0 tk. tok = c0 # tk \<and> (c0 = CHR ''-'' \<or> Parser_digit (ord c0))"
proof -
  from assms obtain sg ip fr ex where parts: "tok = sg @ ip @ fr @ ex" and sg: "sg = [] \<or> sg = ''-''"
    and ip: "int_part ip"
    by (auto simp: number_token_def)
  obtain d ds where "ip = d # ds" "Parser_digit (ord d)"
    using int_part_first [OF ip] by blast
  with parts sg show ?thesis
    by auto
qed

lemma reads_value_number:
  assumes tok: "number_token (put x)" and stod: "stod (put x) = stod_returns x"
  shows "reads_value stod put (JNumber x)"
  unfolding reads_value_def
proof (intro allI impI)
  fix b l r ns vs sp c cs and h :: "'a heap"
  assume sp: "spaces sp" and c: "stopper c"
  let ?text = "put x"
  obtain c0 tk where tx: "?text = c0 # tk" and c0: "c0 = CHR ''-'' \<or> Parser_digit (ord c0)"
    using number_token_first [OF tok] by blast
  from c0 have first: "\<not> Parser_space (ord c0)" "c0 \<noteq> CHR ''{''" "c0 \<noteq> CHR ''[''" "c0 \<noteq> CHR 0x22"
    using digit_facts [of c0] by (auto simp: Parser_space_def ord_def)
  have ws1: "exec stod (Nonterminal ''whitespace'') (St b l r ns vs (sp @ ?text @ c # cs) h)
     = Some (Inr True, St (b @ sp) l r ns vs (?text @ c # cs) h)"
    unfolding tx using whitespace_spaces [OF sp first(1)] by simp
  have nobj: "exec stod (Nonterminal ''object'') (St (b @ sp) l r ns vs (?text @ c # cs) h)
     = Some (Inr False, St (b @ sp) l r ns vs (?text @ c # cs) h)"
    unfolding tx using first by (simp add: object_fails)
  have narr: "exec stod (Nonterminal ''array'') (St (b @ sp) l r ns vs (?text @ c # cs) h)
     = Some (Inr False, St (b @ sp) l r ns vs (?text @ c # cs) h)"
    unfolding tx using first by (simp add: array_fails)
  have nstr: "exec stod (Nonterminal ''string'') (St (b @ sp) l r ns vs (?text @ c # cs) h)
     = Some (Inr False, St [] l r ns vs (?text @ c # cs) h)"
    unfolding tx using first by (simp add: string_fails)
  have num: "exec stod (Nonterminal ''number'') (St [] l r ns vs (?text @ c # cs) h)
     = Some (Inr True, St ?text l (VNumber x) ns vs (c # cs) h)"
    using tok c stod by (rule number_rule)
  have ws2: "exec stod (Nonterminal ''whitespace'') (St ?text l (VNumber x) ns vs (c # cs) h)
     = Some (Inr True, St ?text l (VNumber x) ns vs (c # cs) h)"
    using c by (simp add: whitespace_none stopper_simps)
  have "exec stod (Nonterminal ''value'') (St b l r ns vs (sp @ ?text @ c # cs) h)
     = Some (Inr True, St ?text l (VNumber x) ns vs (c # cs) h)"
    unfolding exec_rule
    by (rule exec_Both_I [OF exec_Both_I [OF ws1 exec_Either_I1 [OF exec_Either_I2
          [OF exec_Either_I2 [OF exec_Either_I2 [OF nobj narr] nstr] num]]] ws2])
  then show "\<exists>b' v h'. exec stod (Nonterminal ''value'') (St b l r ns vs (sp @ compact put (JNumber x) @ c # cs) h)
             = Some (Inr True, St b' l v ns vs (c # cs) h')
           \<and> holds_in {fresh h ..< fresh h'} h' v (JNumber x) \<and> extends h h'"
    by (intro exI [of _ ?text] exI [of _ "VNumber x"] exI [of _ h]) (simp add: extends_refl)
qed

lemma reads_value_regular:
  "regular (reads_back stod put) t \<Longrightarrow> reads_value stod put t"
proof (induction t)
  case JNull
  show ?case by (rule reads_value_null)
next
  case (JBoolean x)
  show ?case by (rule reads_value_boolean)
next
  case (JNumber x)
  then show ?case by (simp add: reads_back_def reads_value_number)
next
  case (JString s)
  then show ?case by (simp add: reads_value_string)
next
  case (JArray ts)
  then have "\<forall>t\<in>set ts. reads_value stod put t" and "ts \<noteq> []"
    by (simp_all add: list_all_iff)
  then show ?case by (rule reads_value_array)
next
  case (JObject kts)
  have "reads_value stod put (snd kt) \<and> printable (fst kt)" if "kt \<in> set kts" for kt
  proof -
    from that JObject.prems have "regular (reads_back stod put) (snd kt)" and "printable (fst kt)"
      by (simp_all add: list_all_iff)
    moreover have "snd kt \<in> Basic_BNFs.snds kt"
      by (cases kt) simp
    ultimately show ?thesis
      using JObject.IH [OF that] by simp
  qed
  then have "\<forall>kt\<in>set kts. reads_value stod put (snd kt) \<and> printable (fst kt)"
    by blast
  moreover from JObject.prems have "kts \<noteq> []" and "sorted_wrt (<) (map fst kts)"
    by simp_all
  ultimately show ?case by (rule reads_value_object)
qed

section \<open>The round trip\<close>

lemma parseObject_object:
  assumes "regular (reads_back stod put) (JObject kts)"
  shows "\<exists>n b' h'. (\<forall>k. parseString stod (n + k) (compact put (JObject kts)) h
            = Some (Inr (VObject (fresh h)), St b' 0 (VObject (fresh h)) [] [] [] h'))
          \<and> holds_in {fresh h ..< fresh h'} h' (VObject (fresh h)) (JObject kts) \<and> extends h h'"
proof -
  have "reads_value stod put (snd kt) \<and> printable (fst kt)" if "kt \<in> set kts" for kt
    using that assms by (simp add: list_all_iff reads_value_regular)
  then have rvs: "\<forall>kt\<in>set kts. reads_value stod put (snd kt) \<and> printable (fst kt)"
    by blast
  from assms have ne: "kts \<noteq> []" and sorted: "sorted_wrt (<) (map fst kts)"
    by simp_all
  from object_rule [OF rvs ne sorted, where b = "[]" and l = 0 and r = VNull and ns = "[]" and vs = "[]"
      and rest = "[]" and h = h]
  obtain b' h' where
    obj: "exec stod (Nonterminal ''object'') (St [] 0 VNull [] [] (compact put (JObject kts)) h)
           = Some (Inr True, St b' 0 (VObject (fresh h)) [] [] [] h')"
    and holds: "holds_in {fresh h ..< fresh h'} h' (VObject (fresh h)) (JObject kts)" and ext: "extends h h'"
    by auto
  have "exec stod (Require (Nonterminal ''object'')) (St [] 0 VNull [] [] (compact put (JObject kts)) h)
           = Some (Inr True, St b' 0 (VObject (fresh h)) [] [] [] h')"
    by (rule exec_Require_I [OF obj])
  then obtain n where n: "run stod n (Require (Nonterminal ''object'')) (St [] 0 VNull [] [] (compact put (JObject kts)) h)
           = Some (Inr True, St b' 0 (VObject (fresh h)) [] [] [] h')"
    by (auto simp: exec_Some_iff)
  have "parseString stod (n + k) (compact put (JObject kts)) h
            = Some (Inr (VObject (fresh h)), St b' 0 (VObject (fresh h)) [] [] [] h')" for k
    using run_mono [OF n, of k]
    by (simp add: parseString_def Parser_parseObject_def Parser_new_def istream_of_def del: compact.simps)
  with holds ext show ?thesis
    by blast
qed

lemma compact_first_not_object:
  assumes "regular (reads_back stod put) t" and "\<forall>kts. t \<noteq> JObject kts"
  shows "\<exists>c cs. compact put t = c # cs \<and> c \<noteq> CHR ''{''"
proof (cases t)
  case (JNumber x)
  with assms(1) have "number_token (put x)"
    by (simp add: reads_back_def)
  then obtain c0 tk where "put x = c0 # tk" and "c0 = CHR ''-'' \<or> Parser_digit (ord c0)"
    using number_token_first by blast
  then have "put x = c0 # tk \<and> c0 \<noteq> CHR ''{''"
    using digit_facts(8) by auto
  with JNumber show ?thesis
    by simp
next
  case (JString s)
  have "std_quoted s = CHR 0x22 # escaped s @ [CHR 0x22]"
    using std_quoted_first [of s "[]"] by simp
  with JString show ?thesis
    by simp
next
  case (JObject kts)
  with assms(2) show ?thesis
    by simp
qed simp_all

lemma parseString_not_object:
  assumes "c \<noteq> CHR ''{''"
  shows "\<exists>n p. \<forall>k. parseString stod (n + k) (c # cs) h = Some (Inl SyntaxError, p)"
proof -
  let ?p = "St [] 0 VNull [] [] (c # cs) h"
  have "exec stod (Nonterminal ''object'') ?p = Some (Inr False, ?p)"
    using assms by (rule object_fails)
  then have "exec stod (Require (Nonterminal ''object'')) ?p = Some (Inl SyntaxError, ?p)"
    by (simp add: exec_Require)
  then obtain n where n: "run stod n (Require (Nonterminal ''object'')) ?p = Some (Inl SyntaxError, ?p)"
    by (auto simp: exec_Some_iff)
  have "parseString stod (n + k) (c # cs) h = Some (Inl SyntaxError, ?p)" for k
    using run_mono [OF n, of k]
    by (simp add: parseString_def Parser_parseObject_def Parser_new_def istream_of_def)
  then show ?thesis
    by blast
qed

text \<open>
  C1, as the code has it: let the contents of \<^verbatim>\<open>v\<close>, read through the store, form a
  finite tree \<open>t\<close> (no array or object contains itself, and every container is one
  already allocated), and let \<open>t\<close> be regular: no empty array or object, strings and
  property names of printable characters (\<open>0x20\<close> to \<open>0x7E\<close>), property names in the
  increasing order of a \<^verbatim>\<open>std::map\<close>, and numbers whose printed text is a number token
  that \<^verbatim>\<open>std::stod\<close> converts back to the same number. Then, for every large enough
  bound on the nesting of calls, \<^verbatim>\<open>to_string\<close> writes the compact text of \<open>t\<close>, and:

  \<^item> if \<^verbatim>\<open>v\<close> is an object, \<^verbatim>\<open>parseString\<close> (that is, \<^verbatim>\<open>Parser::parseObject\<close>) accepts
    this text and returns an object with the same contents \<open>t\<close>, property by property
    and element by element, held in containers that the parser allocated, the containers
    allocated before being left unchanged; the result is not equal to \<^verbatim>\<open>v\<close> by
    \<^verbatim>\<open>operator==\<close>, which compares containers by reference;

  \<^item> if \<^verbatim>\<open>v\<close> is a scalar or an array, \<^verbatim>\<open>parseString\<close> rejects this text with a
    \<^verbatim>\<open>SyntaxError\<close>.
\<close>

theorem C1_round_trip_by_content:
  assumes "holds_in {..<fresh h} h v t"
    and "regular (reads_back stod put) t"
  shows "\<exists>n. \<forall>k. \<exists>p.
      to_string put h (n + k) v = Some (compact put t)
    \<and> (case t of
         JObject kts \<Rightarrow>
           parseString stod (n + k) (compact put t) h = Some (Inr (VObject (fresh h)), p)
           \<and> holds_in {fresh h ..< fresh (mem p)} (mem p) (VObject (fresh h)) t
           \<and> extends h (mem p)
           \<and> \<not> Value_equals deq v (VObject (fresh h))
       | _ \<Rightarrow> parseString stod (n + k) (compact put t) h = Some (Inl SyntaxError, p))"
proof (cases "\<exists>kts. t = JObject kts")
  case True
  then obtain kts where t: "t = JObject kts"
    by blast
  from parseObject_object [OF assms(2) [unfolded t], where h = h]
  obtain n b' h' where
    parse: "\<And>k. parseString stod (n + k) (compact put (JObject kts)) h
            = Some (Inr (VObject (fresh h)), St b' 0 (VObject (fresh h)) [] [] [] h')"
    and holds: "holds_in {fresh h ..< fresh h'} h' (VObject (fresh h)) (JObject kts)" and ext: "extends h h'"
    by blast
  let ?n = "depth (JObject kts) + n"
  from assms(1) t obtain a where v: "v = VObject a" and a: "a < fresh h"
    by (cases v) simp_all
  then have ne: "\<not> Value_equals deq v (VObject (fresh h))"
    by (simp add: Value_equals_def)
  have "to_string put h (?n + k) v = Some (compact put (JObject kts))
    \<and> parseString stod (?n + k) (compact put (JObject kts)) h
        = Some (Inr (VObject (fresh h)), St b' 0 (VObject (fresh h)) [] [] [] h')" for k
    using Formatter_print_compact [OF assms [unfolded t], of put "n + k" 0] parse [of "depth (JObject kts) + k"]
    by (simp add: to_string_def Formatter_default_def add.assoc add.left_commute del: compact.simps depth.simps)
  with holds ext ne show ?thesis
    unfolding t json.case
    by (intro exI [of _ ?n] allI exI [of _ "St b' 0 (VObject (fresh h)) [] [] [] h'"]) simp
next
  case False
  then have no: "\<forall>kts. t \<noteq> JObject kts"
    by blast
  from compact_first_not_object [OF assms(2) no]
  obtain c cs where first: "compact put t = c # cs" and c: "c \<noteq> CHR ''{''"
    by blast
  from parseString_not_object [OF c, of stod cs h]
  obtain m p where rej: "\<And>k. parseString stod (m + k) (c # cs) h = Some (Inl SyntaxError, p)"
    by blast
  let ?n = "depth t + m"
  have both: "to_string put h (?n + k) v = Some (compact put t)
    \<and> parseString stod (?n + k) (compact put t) h = Some (Inl SyntaxError, p)" for k
    using Formatter_print_compact [OF assms, of put "m + k" 0] rej [of "depth t + k"]
    by (simp add: to_string_def Formatter_default_def first add.assoc add.left_commute)
  have "to_string put h (?n + k) v = Some (compact put t)
    \<and> (case t of
         JObject kts \<Rightarrow>
           parseString stod (?n + k) (compact put t) h = Some (Inr (VObject (fresh h)), p)
           \<and> holds_in {fresh h ..< fresh (mem p)} (mem p) (VObject (fresh h)) t
           \<and> extends h (mem p)
           \<and> \<not> Value_equals deq v (VObject (fresh h))
       | _ \<Rightarrow> parseString stod (?n + k) (compact put t) h = Some (Inl SyntaxError, p))" for k
    using both [of k] no by (cases t) (simp_all del: compact.simps depth.simps)
  then show ?thesis
    by blast
qed

lemma number_token_25: "number_token ''25''"
proof -
  have "int_part ''25''"
    by (simp add: int_part_def digits_def Parser_n0digit_def Parser_digit_def ord_def)
  moreover have "frac_part []" and "exp_part []"
    by (simp_all add: frac_part_def exp_part_def)
  ultimately have "''25'' = [] @ ''25'' @ [] @ [] \<and> ([] = [] \<or> [] = ''-'') \<and> int_part ''25'' \<and> frac_part [] \<and> exp_part []"
    by simp
  then show ?thesis
    unfolding number_token_def by blast
qed

text \<open>
  The object \<^verbatim>\<open>{"age": 25, "pets": ["dog", null]}\<close> and the array \<^verbatim>\<open>["dog", null]\<close>,
  with numbers kept as their text.
\<close>

theorem C1_round_trip_witness:
  "holds_in {..<fresh (snd (Value_Object (snd (Value_Array heap_empty [VString ''dog'', VNull]))
        [(''age'', VNumber ''25''), (''pets'', VArray 0)]))}
     (snd (Value_Object (snd (Value_Array heap_empty [VString ''dog'', VNull]))
        [(''age'', VNumber ''25''), (''pets'', VArray 0)]))
     (VObject 1)
     (JObject [(''age'', JNumber ''25''), (''pets'', JArray [JString ''dog'', JNull])])
   \<and> regular (reads_back stod_returns id) (JObject [(''age'', JNumber ''25''), (''pets'', JArray [JString ''dog'', JNull])])
   \<and> (\<exists>n. \<forall>k. \<exists>p.
        to_string id (snd (Value_Object (snd (Value_Array heap_empty [VString ''dog'', VNull]))
            [(''age'', VNumber ''25''), (''pets'', VArray 0)])) (n + k) (VObject 1)
          = Some (compact id (JObject [(''age'', JNumber ''25''), (''pets'', JArray [JString ''dog'', JNull])]))
      \<and> parseString stod_returns (n + k)
            (compact id (JObject [(''age'', JNumber ''25''), (''pets'', JArray [JString ''dog'', JNull])]))
            (snd (Value_Object (snd (Value_Array heap_empty [VString ''dog'', VNull]))
              [(''age'', VNumber ''25''), (''pets'', VArray 0)]))
          = Some (Inr (VObject 2), p)
      \<and> holds_in {2 ..< fresh (mem p)} (mem p) (VObject 2)
            (JObject [(''age'', JNumber ''25''), (''pets'', JArray [JString ''dog'', JNull])])
      \<and> extends (snd (Value_Object (snd (Value_Array heap_empty [VString ''dog'', VNull]))
            [(''age'', VNumber ''25''), (''pets'', VArray 0)])) (mem p)
      \<and> \<not> Value_equals (=) (VObject 1 :: string Value) (VObject 2))
   \<and> holds_in {..<fresh (snd (Value_Array heap_empty [VString ''dog'', VNull]) :: string heap)}
       (snd (Value_Array heap_empty [VString ''dog'', VNull])) (VArray 0 :: string Value)
       (JArray [JString ''dog'', JNull])
   \<and> regular (reads_back stod_returns id) (JArray [JString ''dog'', JNull :: string json])
   \<and> (\<exists>n. \<forall>k. \<exists>p.
        to_string id (snd (Value_Array heap_empty [VString ''dog'', VNull])) (n + k) (VArray 0 :: string Value)
          = Some (compact id (JArray [JString ''dog'', JNull]))
      \<and> parseString stod_returns (n + k) (compact id (JArray [JString ''dog'', JNull :: string json]))
            (snd (Value_Array heap_empty [VString ''dog'', VNull]) :: string heap)
          = Some (Inl SyntaxError, p))"
proof -
  let ?h = "snd (Value_Object (snd (Value_Array heap_empty [VString ''dog'', VNull]))
        [(''age'', VNumber ''25''), (''pets'', VArray 0)]) :: string heap"
  let ?kts = "[(''age'', JNumber ''25''), (''pets'', JArray [JString ''dog'', JNull])]"
  let ?h2 = "snd (Value_Array heap_empty [VString ''dog'', VNull]) :: string heap"
  let ?t2 = "JArray [JString ''dog'', JNull] :: string json"
  have fresh: "fresh ?h = 2"
    by (simp add: Value_Object_def Value_Array_def heap_empty_def)
  have holds: "holds_in {..<fresh ?h} ?h (VObject 1) (JObject ?kts)"
    by (simp add: Value_Object_def Value_Array_def heap_empty_def)
  have reg: "regular (reads_back stod_returns id) (JObject ?kts)"
    by (simp add: reads_back_def number_token_25 printable_def ord_def)
  have holds2: "holds_in {..<fresh ?h2} ?h2 (VArray 0) ?t2"
    by (simp add: Value_Array_def heap_empty_def)
  have reg2: "regular (reads_back stod_returns id) ?t2"
    by (simp add: printable_def ord_def)
  note main = C1_round_trip_by_content [OF holds reg, of "(=)", unfolded fresh json.case]
  note main2 = C1_round_trip_by_content [OF holds2 reg2, of "(=)", unfolded json.case]
  show ?thesis
    by (intro conjI holds reg main holds2 reg2 main2)
qed

text \<open>
  C1, as the claim has it, fails: the object \<^verbatim>\<open>{"test": true}\<close> is written and read back
  into a new object, which \<^verbatim>\<open>operator==\<close> tells apart from the first; the scalar
  \<^verbatim>\<open>null\<close> is written as \<^verbatim>\<open>null\<close>, which \<^verbatim>\<open>Parser::parseObject\<close> rejects with a
  \<^verbatim>\<open>SyntaxError\<close>, its text not being an object.
\<close>

theorem C1_round_trip_fails_for_equality:
  \<open>to_string id (snd (Value_Object heap_empty [(''test'', VBoolean True)])) (Suc (Suc 0)) (VObject 0 :: string Value)
      = Some ''{"test": true}''
   \<and> map_option fst (parseString stod_returns 80 ''{"test": true}''
        (snd (Value_Object heap_empty [(''test'', VBoolean True)]))) = Some (Inr (VObject 1 :: string Value))
   \<and> \<not> Value_equals (=) (VObject 0 :: string Value) (VObject 1)
   \<and> to_string id (heap_empty :: string heap) (Suc 0) VNull = Some ''null''
   \<and> map_option fst (parseString stod_returns 80 ''null'' (heap_empty :: string heap)) = Some (Inl SyntaxError)\<close>
proof (intro conjI)
  show \<open>to_string id (snd (Value_Object heap_empty [(''test'', VBoolean True)])) (Suc (Suc 0)) (VObject 0 :: string Value)
      = Some ''{"test": true}''\<close>
    by (simp add: to_string_def Formatter_default_def Formatter_print_Object_def Formatter_multiline_def
        std_quoted_def Value_Object_def heap_empty_def)
  show \<open>map_option fst (parseString stod_returns 80 ''{"test": true}''
        (snd (Value_Object heap_empty [(''test'', VBoolean True)]))) = Some (Inr (VObject 1 :: string Value))\<close>
    by (simp add: run_eval heap_empty_def)
  show "\<not> Value_equals (=) (VObject 0 :: string Value) (VObject 1)"
    by (simp add: Value_equals_def)
  show "to_string id (heap_empty :: string heap) (Suc 0) VNull = Some ''null''"
    by (simp add: to_string_def)
  show "map_option fst (parseString stod_returns 80 ''null'' (heap_empty :: string heap)) = Some (Inl SyntaxError)"
    by (simp add: run_eval)
qed

end
